theory Spec2Isabelle
  imports Main "HOL-Library.Word"
begin

section \<open>Bytes, C strings and faults\<close>

text \<open>
  The driver (\<^verbatim>\<open>SIM800L.cpp\<close>) works on \<^verbatim>\<open>char\<close> buffers. A buffer is a list of
  characters whose length is the allocated size; a C string is the part of a buffer
  before its first NUL. Reading or writing outside the allocation is undefined in C++ and
  is the fault \<open>OutOfBounds\<close> here; a busy-wait that never ends is the fault \<open>Hang\<close>.
\<close>

datatype fault = OutOfBounds | Hang

definition bindF :: "fault + 'a \<Rightarrow> ('a \<Rightarrow> fault + 'b) \<Rightarrow> fault + 'b" where
  "bindF m f = (case m of Inl e \<Rightarrow> Inl e | Inr x \<Rightarrow> f x)"

definition NUL :: char where "NUL = CHR 0x00"
definition CR :: char where "CR = CHR 0x0D"
definition LF :: char where "LF = CHR 0x0A"

definition CRLF :: string where "CRLF = [CR, LF]"

text \<open>
  \<^verbatim>\<open>c - '0'\<close> is computed on \<^verbatim>\<open>int\<close> after promotion; \<^verbatim>\<open>char\<close> is signed on the
  AVR targets of the Arduino core, so bytes from 128 on are negative.
\<close>

definition char_val :: "char \<Rightarrow> int" where
  "char_val c = (let n = of_char c in if n < 128 then n else n - 256)"

definition digit_of :: "char \<Rightarrow> int" where
  "digit_of c = char_val c - 48"

text \<open>\<^verbatim>\<open>buf[k]\<close> for a signed index \<open>k\<close>.\<close>

definition at :: "char list \<Rightarrow> int \<Rightarrow> fault + char" where
  "at buf k = (if 0 \<le> k \<and> k < int (length buf) then Inr (buf ! nat k) else Inl OutOfBounds)"

text \<open>
  The C string held by a buffer: \<^verbatim>\<open>strlen\<close> scans for the first NUL and leaves the
  allocation when there is none.
\<close>

definition cstr :: "char list \<Rightarrow> fault + string" where
  "cstr buf = (if NUL \<in> set buf then Inr (takeWhile (\<lambda>c. c \<noteq> NUL) buf) else Inl OutOfBounds)"

section \<open>The matcher \<^verbatim>\<open>strIndex\<close> (lines 631-654)\<close>

text \<open>
  \<open>i\<close>, \<open>firstIndex\<close> and \<open>sizeMatch\<close> are \<^verbatim>\<open>int16_t\<close>: integers here, with the conversion
  to 16 bits written out where the source increments or assigns them.
\<close>

definition wrap16 :: "int \<Rightarrow> int" where
  "wrap16 x = (x + 32768) mod 65536 - 32768"

text \<open>
  \<open>strIndex_loop\<close> is the \<^verbatim>\<open>for\<close> loop: the first argument is what is left of \<open>str\<close>
  from index \<open>i\<close> on. The comparisons with \<^verbatim>\<open>strlen\<close> are unsigned, and a negative value
  converts to one above every length a string in memory has: \<^verbatim>\<open>i < strlen(str)\<close> fails once
  \<open>i\<close> has wrapped to a negative value, which ends the loop after index 32767, and
  \<^verbatim>\<open>sizeMatch >= strlen(findStr)\<close> holds for a negative \<open>sizeMatch\<close>.
  The result is the pair \<open>(firstIndex, sizeMatch)\<close> on leaving the loop.
\<close>

fun strIndex_loop :: "string \<Rightarrow> string \<Rightarrow> int \<Rightarrow> int \<Rightarrow> int \<Rightarrow> int \<times> int" where
  "strIndex_loop [] findStr i firstIndex sizeMatch = (firstIndex, sizeMatch)"
| "strIndex_loop (c # cs) findStr i firstIndex sizeMatch =
     (if i < 0 then (firstIndex, sizeMatch)
      else if sizeMatch < 0 \<or> sizeMatch \<ge> int (length findStr) then (firstIndex, sizeMatch)
      else if c = findStr ! nat sizeMatch
      then strIndex_loop cs findStr (wrap16 (i + 1)) (if firstIndex < 0 then i else firstIndex)
             (wrap16 (sizeMatch + 1))
      else strIndex_loop cs findStr (wrap16 (i + 1)) (- 1) 0)"

text \<open>
  \<open>startIdx\<close> is a \<^verbatim>\<open>uint16_t\<close>, a number below 65536, that initialises the \<^verbatim>\<open>int16_t\<close> \<open>i\<close>:
  from 32768 on \<open>i\<close> starts negative and the loop is not entered.
\<close>

definition strIndex :: "string \<Rightarrow> string \<Rightarrow> nat \<Rightarrow> int" where
  "strIndex str findStr startIdx =
     (let start = int startIdx mod 65536;
          (firstIndex, sizeMatch) =
            strIndex_loop (drop (nat start) str) findStr (wrap16 start) (- 1) 0
      in if sizeMatch < 0 \<or> sizeMatch \<ge> int (length findStr) then firstIndex else - 1)"

text \<open>\<^verbatim>\<open>strIndex(internalBuffer, ...)\<close>: the haystack is the C string in the buffer.\<close>

definition strIndex_buf :: "char list \<Rightarrow> string \<Rightarrow> nat \<Rightarrow> fault + int" where
  "strIndex_buf buf findStr startIdx = bindF (cstr buf) (\<lambda>s. Inr (strIndex s findStr startIdx))"

text \<open>What the matcher is meant to find: an occurrence of \<open>needle\<close> in \<open>hay\<close> at index \<open>k\<close>.\<close>

definition occurs_at :: "string \<Rightarrow> string \<Rightarrow> nat \<Rightarrow> bool" where
  "occurs_at hay needle k = (k + length needle \<le> length hay \<and> take (length needle) (drop k hay) = needle)"

section \<open>The driver and its transport\<close>

text \<open>
  The header \<^verbatim>\<open>SIM800L.h\<close> is not among the sources. The two constants it declares
  that the code below depends on are parameters: \<^verbatim>\<open>DEFAULT_TIMEOUT\<close> and the default
  value of the argument \<^verbatim>\<open>crlfToWait\<close> of \<^verbatim>\<open>readResponse\<close> and
  \<^verbatim>\<open>readResponseCheckAnswer_P\<close>. The default of \<^verbatim>\<open>startIdx\<close> in \<^verbatim>\<open>strIndex\<close> is 0.
\<close>

record header =
  DEFAULT_TIMEOUT :: int
  crlfToWait_default :: "8 word"

text \<open>
  The fields of the class, with the transport behind \<^verbatim>\<open>stream\<close> made explicit:
  \<^item> \<open>rx\<close> is what the device sends and the driver has not read yet: each byte with the
    time in milliseconds at which it reaches the transport, in the order of arrival; a byte
    is waiting once the clock has reached its time, and nothing arrives after the last one;
  \<^item> \<open>clock\<close> is \<^verbatim>\<open>millis()\<close>; one poll \<^verbatim>\<open>stream->available()\<close> takes one millisecond;
  \<^item> \<open>tx\<close> is every byte written with \<^verbatim>\<open>stream->write\<close>, in order;
  \<^item> \<open>internalBuffer\<close> and \<open>recvBuffer\<close> are the two allocations of the constructor, so
    \<^verbatim>\<open>internalBufferSize\<close> and \<^verbatim>\<open>recvBufferSize\<close> are their lengths;
  \<^item> \<open>dataSize\<close> is a 16-bit counter, as the index it bounds in the copy loop.
  Debug output goes to \<^verbatim>\<open>Serial\<close>, not to the transport, and is left out.
\<close>

record driver =
  rx :: "(int \<times> char) list"
  clock :: int
  tx :: "char list"
  internalBuffer :: "char list"
  recvBuffer :: "char list"
  dataSize :: "16 word"

definition internalBufferSize :: "driver \<Rightarrow> nat" where
  "internalBufferSize d = length (internalBuffer d)"

definition recvBufferSize :: "driver \<Rightarrow> nat" where
  "recvBufferSize d = length (recvBuffer d)"

definition stream_available :: "driver \<Rightarrow> bool \<times> driver" where
  "stream_available d =
     (case rx d of
        [] \<Rightarrow> (False, d\<lparr>clock := clock d + 1\<rparr>)
      | (t, c) # rest \<Rightarrow> (t \<le> clock d, d\<lparr>clock := clock d + 1\<rparr>))"

text \<open>\<^verbatim>\<open>Stream::read\<close> returns -1 when nothing is waiting, which is the byte 0xFF in a \<^verbatim>\<open>char\<close>.\<close>

definition stream_read :: "driver \<Rightarrow> char \<times> driver" where
  "stream_read d =
     (case rx d of
        [] \<Rightarrow> (CHR 0xFF, d)
      | (t, c) # rest \<Rightarrow> if t \<le> clock d then (c, d\<lparr>rx := rest\<rparr>) else (CHR 0xFF, d))"

definition millis :: "driver \<Rightarrow> int" where
  "millis d = clock d"

definition stream_write :: "string \<Rightarrow> driver \<Rightarrow> driver" where
  "stream_write s d = d\<lparr>tx := tx d @ s\<rparr>"

text \<open>\<^verbatim>\<open>initInternalBuffer\<close> (lines 659-663).\<close>

definition initInternalBuffer :: "driver \<Rightarrow> driver" where
  "initInternalBuffer d = d\<lparr>internalBuffer := replicate (internalBufferSize d) NUL\<rparr>"

section \<open>The response reader (lines 729-763 and 787-842)\<close>

text \<open>
  The \<^verbatim>\<open>uint32_t\<close> difference \<^verbatim>\<open>millis() - timerStart\<close> is the elapsed time as long as
  that is below \<open>2^32\<close> ms; the loops leave once it exceeds a 16-bit timeout, so it is a
  difference of integers here, and so are the timeouts.
\<close>

function readToForget_loop :: "int \<Rightarrow> int \<Rightarrow> nat \<Rightarrow> driver \<Rightarrow> fault + driver" where
  "readToForget_loop timeout timerStart currentSizeResponse d =
     (case stream_available d of
        (True, d1) \<Rightarrow>
          (case stream_read d1 of
             (c, d2) \<Rightarrow>
               if currentSizeResponse \<ge> internalBufferSize d2 then Inl OutOfBounds
               else let d3 = d2\<lparr>internalBuffer := (internalBuffer d2)[currentSizeResponse := c]\<rparr>
                    in if currentSizeResponse + 1 = internalBufferSize d3 then Inr d3
                       else if millis d3 - timerStart > timeout then Inr d3
                       else readToForget_loop timeout timerStart (currentSizeResponse + 1) d3)
      | (False, d1) \<Rightarrow>
          if millis d1 - timerStart > timeout then Inr d1
          else readToForget_loop timeout timerStart currentSizeResponse d1)"
  by pat_completeness auto
termination
  by (relation "measure (\<lambda>(timeout, timerStart, csr, d). nat (timeout + 1 + timerStart - clock d))")
     (auto simp: stream_available_def stream_read_def millis_def split: list.splits if_splits)

declare readToForget_loop.simps [simp del]

definition readToForget :: "int \<Rightarrow> driver \<Rightarrow> fault + driver" where
  "readToForget timeout d =
     (let d0 = initInternalBuffer d in readToForget_loop timeout (millis d0) 0 d0)"

text \<open>
  The CRLF detection of lines 804-814 on the byte just stored: whether the loop is left,
  and the new values of \<open>seenCR\<close> and \<open>countCRLF\<close> (a \<^verbatim>\<open>uint8_t\<close>).
\<close>

definition detectCRLF :: "char \<Rightarrow> bool \<Rightarrow> 8 word \<Rightarrow> 8 word \<Rightarrow> bool \<times> bool \<times> 8 word" where
  "detectCRLF c seenCR countCRLF crlfToWait =
     (if c = CR then (False, True, countCRLF)
      else if c = LF \<and> seenCR then (countCRLF + 1 = crlfToWait, seenCR, countCRLF + 1)
      else (False, False, countCRLF))"

function readResponse_loop ::
  "int \<Rightarrow> 8 word \<Rightarrow> int \<Rightarrow> nat \<Rightarrow> bool \<Rightarrow> 8 word \<Rightarrow> driver \<Rightarrow> fault + (bool \<times> driver)" where
  "readResponse_loop timeout crlfToWait timerStart currentSizeResponse seenCR countCRLF d =
     (case stream_available d of
        (True, d1) \<Rightarrow>
          (case stream_read d1 of
             (c, d2) \<Rightarrow>
               if currentSizeResponse \<ge> internalBufferSize d2 then Inl OutOfBounds
               else let d3 = d2\<lparr>internalBuffer := (internalBuffer d2)[currentSizeResponse := c]\<rparr>
                    in (case detectCRLF c seenCR countCRLF crlfToWait of
                          (brk, seenCR', countCRLF') \<Rightarrow>
                            if brk then Inr (True, d3)
                            else if currentSizeResponse + 1 = internalBufferSize d3 then Inr (True, d3)
                            else if millis d3 - timerStart > timeout then Inr (False, d3)
                            else readResponse_loop timeout crlfToWait timerStart
                                   (currentSizeResponse + 1) seenCR' countCRLF' d3))
      | (False, d1) \<Rightarrow>
          if millis d1 - timerStart > timeout then Inr (False, d1)
          else readResponse_loop timeout crlfToWait timerStart currentSizeResponse seenCR countCRLF d1)"
  by pat_completeness auto
termination
  by (relation "measure (\<lambda>(timeout, crlfToWait, timerStart, csr, seenCR, countCRLF, d).
                            nat (timeout + 1 + timerStart - clock d))")
     (auto simp: stream_available_def stream_read_def millis_def split: list.splits if_splits)

declare readResponse_loop.simps [simp del]

definition readResponse :: "int \<Rightarrow> 8 word \<Rightarrow> driver \<Rightarrow> fault + (bool \<times> driver)" where
  "readResponse timeout crlfToWait d =
     (let d0 = initInternalBuffer d
      in readResponse_loop timeout crlfToWait (millis d0) 0 False 0 d0)"

text \<open>The number of CRLF sequences in a byte string: a CR with an LF right after it.\<close>

fun count_crlf :: "string \<Rightarrow> nat" where
  "count_crlf (a # b # cs) = (if a = CR \<and> b = LF then 1 else 0) + count_crlf (b # cs)"
| "count_crlf cs = 0"


section \<open>AT commands and expected answers (lines 36-64)\<close>

definition AT_CMD_BASE :: string where "AT_CMD_BASE = ''AT''"
definition AT_CMD_CSQ :: string where "AT_CMD_CSQ = ''AT+CSQ''"
definition AT_CMD_CFUN_TEST :: string where "AT_CMD_CFUN_TEST = ''AT+CFUN?''"
definition AT_CMD_CFUN0 :: string where "AT_CMD_CFUN0 = ''AT+CFUN=0''"
definition AT_CMD_CFUN1 :: string where "AT_CMD_CFUN1 = ''AT+CFUN=1''"
definition AT_CMD_CFUN4 :: string where "AT_CMD_CFUN4 = ''AT+CFUN=4''"
definition AT_CMD_CREG_TEST :: string where "AT_CMD_CREG_TEST = ''AT+CREG?''"
definition AT_CMD_HTTPINIT :: string where "AT_CMD_HTTPINIT = ''AT+HTTPINIT''"
definition AT_CMD_HTTPPARA_CID :: string where
  \<open>AT_CMD_HTTPPARA_CID = ''AT+HTTPPARA="CID",1''\<close>
definition AT_CMD_HTTPPARA_URL :: string where
  \<open>AT_CMD_HTTPPARA_URL = ''AT+HTTPPARA="URL",''\<close>
definition AT_CMD_HTTPPARA_CONTENT :: string where
  \<open>AT_CMD_HTTPPARA_CONTENT = ''AT+HTTPPARA="CONTENT",''\<close>
definition AT_CMD_HTTPSSL_Y :: string where "AT_CMD_HTTPSSL_Y = ''AT+HTTPSSL=1''"
definition AT_CMD_HTTPSSL_N :: string where "AT_CMD_HTTPSSL_N = ''AT+HTTPSSL=0''"
definition AT_CMD_HTTPACTION0 :: string where "AT_CMD_HTTPACTION0 = ''AT+HTTPACTION=0''"
definition AT_CMD_HTTPACTION1 :: string where "AT_CMD_HTTPACTION1 = ''AT+HTTPACTION=1''"
definition AT_CMD_HTTPREAD :: string where "AT_CMD_HTTPREAD = ''AT+HTTPREAD''"
definition AT_CMD_HTTPTERM :: string where "AT_CMD_HTTPTERM = ''AT+HTTPTERM''"

definition AT_RSP_OK :: string where "AT_RSP_OK = ''OK''"
definition AT_RSP_DOWNLOAD :: string where "AT_RSP_DOWNLOAD = ''DOWNLOAD''"
definition AT_RSP_HTTPREAD :: string where "AT_RSP_HTTPREAD = ''+HTTPREAD: ''"

section \<open>Sending commands (lines 671-724)\<close>

text \<open>\<^verbatim>\<open>flush\<close> waits for the outgoing bytes to leave and changes nothing that is modelled.\<close>

definition sendCommand :: "string \<Rightarrow> driver \<Rightarrow> fault + driver" where
  "sendCommand command d =
     bindF (readToForget 500 d) (\<lambda>d1. Inr (stream_write CRLF (stream_write command d1)))"

definition sendCommand_param :: "string \<Rightarrow> string \<Rightarrow> driver \<Rightarrow> fault + driver" where
  \<open>sendCommand_param command parameter d =
     bindF (readToForget 500 d) (\<lambda>d1.
       Inr (stream_write CRLF (stream_write ''"'' (stream_write parameter
              (stream_write ''"'' (stream_write command d1))))))\<close>

text \<open>
  The \<^verbatim>\<open>_P\<close> variants copy the command from program memory into \<^verbatim>\<open>cmdBuff[32]\<close> with
  \<^verbatim>\<open>strcpy_P\<close>, which writes the terminating NUL as well.
\<close>

definition sendCommand_P :: "string \<Rightarrow> driver \<Rightarrow> fault + driver" where
  "sendCommand_P command d =
     (if length command \<ge> 32 then Inl OutOfBounds else sendCommand command d)"

definition sendCommand_P_param :: "string \<Rightarrow> string \<Rightarrow> driver \<Rightarrow> fault + driver" where
  "sendCommand_P_param command parameter d =
     (if length command \<ge> 32 then Inl OutOfBounds else sendCommand_param command parameter d)"

section \<open>Reading an expected answer (lines 768-781)\<close>

text \<open>The expected answer is copied into \<^verbatim>\<open>rspBuff[16]\<close> once the response is read.\<close>

definition readResponseCheckAnswer_P ::
  "int \<Rightarrow> string \<Rightarrow> 8 word \<Rightarrow> driver \<Rightarrow> fault + (bool \<times> driver)" where
  "readResponseCheckAnswer_P timeout expectedAnswer crlfToWait d =
     bindF (readResponse timeout crlfToWait d) (\<lambda>(ok, d1).
       if ok then
         (if length expectedAnswer \<ge> 16 then Inl OutOfBounds
          else bindF (strIndex_buf (internalBuffer d1) expectedAnswer 0) (\<lambda>idx.
                 if idx > 0 then Inr (True, d1) else Inr (False, d1)))
       else Inr (False, d1))"

section \<open>Status queries (lines 451-511 and 604-622)\<close>

datatype PowerMode = MINIMUM | NORMAL | SLEEP | POW_UNKNOWN | POW_ERROR

datatype NetworkRegistration =
  NOT_REGISTERED | REGISTERED_HOME | SEARCHING | DENIED | REGISTERED_ROAMING
  | NET_UNKNOWN | NET_ERROR

definition isReady :: "header \<Rightarrow> driver \<Rightarrow> fault + (bool \<times> driver)" where
  "isReady h d =
     bindF (sendCommand_P AT_CMD_BASE d) (\<lambda>d1.
       readResponseCheckAnswer_P (DEFAULT_TIMEOUT h) AT_RSP_OK (crlfToWait_default h) d1)"

definition powerMode_of :: "char \<Rightarrow> PowerMode" where
  "powerMode_of value =
     (if value = CHR ''0'' then MINIMUM
      else if value = CHR ''1'' then NORMAL
      else if value = CHR ''4'' then SLEEP
      else POW_UNKNOWN)"

definition getPowerMode :: "header \<Rightarrow> driver \<Rightarrow> fault + (PowerMode \<times> driver)" where
  "getPowerMode h d =
     bindF (sendCommand_P AT_CMD_CFUN_TEST d) (\<lambda>d1.
     bindF (readResponse (DEFAULT_TIMEOUT h) (crlfToWait_default h) d1) (\<lambda>(ok, d2).
       if ok then
         bindF (strIndex_buf (internalBuffer d2) ''ERROR'' 0) (\<lambda>errIdx.
           if errIdx > 0 then Inr (POW_ERROR, d2)
           else
             bindF (strIndex_buf (internalBuffer d2) ''+CFUN: '' 0) (\<lambda>idx.
             bindF (at (internalBuffer d2) (idx + 7)) (\<lambda>value.
               Inr (powerMode_of value, d2))))
       else Inr (POW_ERROR, d2)))"

definition registration_of :: "char \<Rightarrow> NetworkRegistration" where
  "registration_of value =
     (if value = CHR ''0'' then NOT_REGISTERED
      else if value = CHR ''1'' then REGISTERED_HOME
      else if value = CHR ''2'' then SEARCHING
      else if value = CHR ''3'' then DENIED
      else if value = CHR ''5'' then REGISTERED_ROAMING
      else NET_UNKNOWN)"

definition getRegistrationStatus ::
  "header \<Rightarrow> driver \<Rightarrow> fault + (NetworkRegistration \<times> driver)" where
  "getRegistrationStatus h d =
     bindF (sendCommand_P AT_CMD_CREG_TEST d) (\<lambda>d1.
     bindF (readResponse (DEFAULT_TIMEOUT h) (crlfToWait_default h) d1) (\<lambda>(ok, d2).
       if ok then
         bindF (strIndex_buf (internalBuffer d2) ''ERROR'' 0) (\<lambda>errIdx.
           if errIdx > 0 then Inr (NET_ERROR, d2)
           else
             bindF (strIndex_buf (internalBuffer d2) ''+CREG: '' 0) (\<lambda>idx.
             bindF (at (internalBuffer d2) (idx + 9)) (\<lambda>value.
               Inr (registration_of value, d2))))
       else Inr (NET_ERROR, d2)))"

text \<open>
  \<^verbatim>\<open>getSignal\<close>: \<open>value\<close> is a \<^verbatim>\<open>uint8_t\<close>. The two reads before the comma are the reads
  of \<^verbatim>\<open>internalBuffer[idxEnd - 1]\<close> and \<^verbatim>\<open>internalBuffer[idxEnd - 2]\<close>, in this order.
\<close>

definition getSignal :: "header \<Rightarrow> driver \<Rightarrow> fault + (8 word \<times> driver)" where
  "getSignal h d =
     bindF (sendCommand_P AT_CMD_CSQ d) (\<lambda>d1.
     bindF (readResponse (DEFAULT_TIMEOUT h) (crlfToWait_default h) d1) (\<lambda>(ok, d2).
       if ok then
         bindF (strIndex_buf (internalBuffer d2) ''AT+CSQ'' 0) (\<lambda>idxBase.
           if idxBase \<noteq> 0 then Inr (0, d2)
           else
             bindF (strIndex_buf (internalBuffer d2) '','' (nat idxBase)) (\<lambda>idxEnd.
             bindF (at (internalBuffer d2) (idxEnd - 1)) (\<lambda>c1.
             bindF (at (internalBuffer d2) (idxEnd - 2)) (\<lambda>c2.
               let value = (of_int (digit_of c1) :: 8 word);
                   value = (if c2 \<noteq> CHR '' '' then value + of_int (digit_of c2 * 10) else value)
               in if value > 31 then Inr (0, d2) else Inr (value, d2)))))
       else Inr (0, d2)))"

section \<open>Power mode transition (lines 553-599)\<close>

definition cfun_command :: "PowerMode \<Rightarrow> string" where
  "cfun_command powerMode =
     (case powerMode of MINIMUM \<Rightarrow> AT_CMD_CFUN0 | SLEEP \<Rightarrow> AT_CMD_CFUN4 | _ \<Rightarrow> AT_CMD_CFUN1)"

definition setPowerMode :: "header \<Rightarrow> PowerMode \<Rightarrow> driver \<Rightarrow> fault + (bool \<times> driver)" where
  "setPowerMode h powerMode d =
     (if powerMode = POW_ERROR \<or> powerMode = POW_UNKNOWN then Inr (False, d)
      else
        bindF (getPowerMode h d) (\<lambda>(currentPowerMode, d1).
          if currentPowerMode = POW_ERROR \<or> currentPowerMode = POW_UNKNOWN then Inr (False, d1)
          else if currentPowerMode = powerMode then Inr (True, d1)
          else if (currentPowerMode = SLEEP \<or> currentPowerMode = MINIMUM) \<and> powerMode \<noteq> NORMAL
          then Inr (False, d1)
          else
            bindF (sendCommand_P (cfun_command powerMode) d1) (\<lambda>d2.
            bindF (readToForget 10000 d2) (\<lambda>d3.
            bindF (getPowerMode h d3) (\<lambda>(currentPowerMode, d4).
              Inr (currentPowerMode = powerMode, d4))))))"

section \<open>HTTP session (lines 111-410)\<close>

definition initiateHTTP :: "header \<Rightarrow> string \<Rightarrow> driver \<Rightarrow> fault + (16 word \<times> driver)" where
  "initiateHTTP h url d =
     bindF (sendCommand_P AT_CMD_HTTPINIT d) (\<lambda>d1.
     bindF (readResponseCheckAnswer_P (DEFAULT_TIMEOUT h) AT_RSP_OK (crlfToWait_default h) d1) (\<lambda>(ok, d2).
     if \<not> ok then Inr (701, d2) else
     bindF (sendCommand_P AT_CMD_HTTPPARA_CID d2) (\<lambda>d3.
     bindF (readResponseCheckAnswer_P (DEFAULT_TIMEOUT h) AT_RSP_OK (crlfToWait_default h) d3) (\<lambda>(ok, d4).
     if \<not> ok then Inr (702, d4) else
     bindF (sendCommand_P_param AT_CMD_HTTPPARA_URL url d4) (\<lambda>d5.
     bindF (readResponseCheckAnswer_P (DEFAULT_TIMEOUT h) AT_RSP_OK (crlfToWait_default h) d5) (\<lambda>(ok, d6).
     if \<not> ok then Inr (702, d6) else
     bindF (sendCommand_P (if strIndex url ''https://'' 0 = 0 then AT_CMD_HTTPSSL_Y else AT_CMD_HTTPSSL_N) d6) (\<lambda>d7.
     bindF (readResponseCheckAnswer_P (DEFAULT_TIMEOUT h) AT_RSP_OK (crlfToWait_default h) d7) (\<lambda>(ok, d8).
     if \<not> ok then Inr (702, d8) else Inr (0, d8)))))))))"

definition terminateHTTP :: "header \<Rightarrow> driver \<Rightarrow> fault + (16 word \<times> driver)" where
  "terminateHTTP h d =
     bindF (sendCommand_P AT_CMD_HTTPTERM d) (\<lambda>d1.
     bindF (readResponseCheckAnswer_P (DEFAULT_TIMEOUT h) AT_RSP_OK (crlfToWait_default h) d1) (\<lambda>(ok, d2).
     if \<not> ok then Inr (706, d2) else Inr (0, d2)))"

text \<open>
  The HTTP return code (lines 173-176 and 283-286): three bytes at a fixed distance from
  \<open>idxBase\<close>, each minus \<^verbatim>\<open>'0'\<close>, summed into a \<^verbatim>\<open>uint16_t\<close>.
\<close>

definition httpRC_of :: "char list \<Rightarrow> int \<Rightarrow> fault + 16 word" where
  "httpRC_of buf idxBase =
     bindF (at buf (idxBase + 15)) (\<lambda>c15.
     bindF (at buf (idxBase + 16)) (\<lambda>c16.
     bindF (at buf (idxBase + 17)) (\<lambda>c17.
       Inr (0 + of_int (digit_of c15 * 100) + of_int (digit_of c16 * 10) + of_int (digit_of c17 * 1)))))"

text \<open>
  The size of the data (lines 186-191 and 296-301): the loop runs while the byte at
  \<open>idxBase + 19 + i\<close> is a digit; the accumulator is the member \<open>dataSize\<close>.
\<close>

function dataSize_loop :: "char list \<Rightarrow> int \<Rightarrow> nat \<Rightarrow> 16 word \<Rightarrow> fault + 16 word" where
  "dataSize_loop buf idxBase i ds =
     (case at buf (idxBase + 19 + int i) of
        Inl e \<Rightarrow> Inl e
      | Inr c \<Rightarrow>
          if digit_of c \<ge> 0 \<and> digit_of c \<le> 9
          then dataSize_loop buf idxBase (i + 1)
                 ((if i \<noteq> 0 then ds * 10 else ds) + of_int (digit_of c))
          else Inr ds)"
  by pat_completeness auto
termination
  by (relation "measure (\<lambda>(buf, idxBase, i, ds). nat (int (length buf) - (idxBase + 19 + int i)))")
     (auto simp: at_def split: if_splits)

declare dataSize_loop.simps [simp del]

text \<open>
  The copy of the payload (lines 206-216 and 316-326). \<^verbatim>\<open>while(!stream->available());\<close>
  polls until a byte is waiting and never ends when none arrives any more.
\<close>

function wait_available :: "driver \<Rightarrow> fault + driver" where
  "wait_available d =
     (case stream_available d of
        (True, d1) \<Rightarrow> Inr d1
      | (False, d1) \<Rightarrow> if rx d = [] then Inl Hang else wait_available d1)"
  by pat_completeness auto
termination
  by (relation "measure (\<lambda>d. case rx d of [] \<Rightarrow> 0 | (t, c) # rest \<Rightarrow> nat (t + 1 - clock d))")
     (auto simp: stream_available_def split: list.splits)

declare wait_available.simps [simp del]

lemma wait_available_rx:
  "wait_available d = Inr d' \<Longrightarrow>
   rx d' = rx d \<and> (\<exists>t c rest. rx d = (t, c) # rest \<and> t < clock d')"
proof (induction d rule: wait_available.induct)
  case (1 d)
  show ?case
  proof (cases "rx d")
    case Nil
    with "1.prems" show ?thesis
      by (simp add: wait_available.simps [of d] stream_available_def)
  next
    case (Cons x rest)
    obtain t c where x: "x = (t, c)" by (cases x)
    let ?d1 = "d\<lparr>clock := clock d + 1\<rparr>"
    show ?thesis
    proof (cases "t \<le> clock d")
      case True
      with Cons x "1.prems" show ?thesis
        by (auto simp: wait_available.simps [of d] stream_available_def)
    next
      case False
      with Cons x have sa: "stream_available d = (False, ?d1)"
        by (simp add: stream_available_def)
      with Cons "1.prems" have w: "wait_available ?d1 = Inr d'"
        by (simp add: wait_available.simps [of d])
      from Cons have "rx d' = rx ?d1 \<and> (\<exists>t c rest. rx ?d1 = (t, c) # rest \<and> t < clock d')"
        by (intro "1.IH" [OF sa [symmetric] _ _ w]) simp_all
      then show ?thesis by simp
    qed
  qed
qed

text \<open>
  The index \<open>i\<close> is a \<^verbatim>\<open>uint16_t\<close>: \<^verbatim>\<open>i--\<close> on a CR or LF followed by the \<^verbatim>\<open>i++\<close> of the
  loop wraps around at 0 and comes back.
\<close>

function copy_loop :: "16 word \<Rightarrow> driver \<Rightarrow> fault + driver" where
  "copy_loop i d =
     (if i < dataSize d \<and> unat i < recvBufferSize d then
        (case wait_available d of
           Inl e \<Rightarrow> Inl e
         | Inr d1 \<Rightarrow>
             (case stream_available d1 of
                (True, d2) \<Rightarrow>
                  (case stream_read d2 of
                     (c, d3) \<Rightarrow>
                       let d4 = d3\<lparr>recvBuffer := (recvBuffer d3)[unat i := c]\<rparr>;
                           i' = (if c = CR \<or> c = LF then i - 1 else i)
                       in copy_loop (i' + 1) d4)
              | (False, d2) \<Rightarrow> copy_loop (i + 1) d2))
      else Inr d)"
  by pat_completeness auto
termination
proof (relation "measure (\<lambda>(i, d). length (rx d))", goal_cases)
  case 1
  show ?case by simp
next
  case (2 i d d1 b d2 c d3 d4 i')
  from wait_available_rx [OF "2"(2)] obtain t c0 rest
    where r: "rx d1 = rx d" "rx d = (t, c0) # rest" "t < clock d1" by blast
  from r "2"(3) have "d2 = d1\<lparr>clock := clock d1 + 1\<rparr>"
    by (simp add: stream_available_def)
  with r "2"(5) have "rx d3 = rest"
    by (simp add: stream_read_def)
  with "2"(6) r show ?case by simp
next
  case (3 i d d1 b d2)
  from wait_available_rx [OF "3"(2)] obtain t c0 rest
    where r: "rx d1 = rx d" "rx d = (t, c0) # rest" "t < clock d1" by blast
  with "3"(3) "3"(4) show ?case
    by (simp add: stream_available_def)
qed

declare copy_loop.simps [simp del]

text \<open>
  The block run on status 200 (lines 183-235 in \<^verbatim>\<open>doPost\<close>, the same text at lines
  293-345 in \<^verbatim>\<open>doGet\<close>). It returns early with 705 twice; \<open>Some rc\<close> is such a return,
  \<open>None\<close> is reaching the end of the block.
\<close>

definition readData :: "header \<Rightarrow> int \<Rightarrow> driver \<Rightarrow> fault + (16 word option \<times> driver)" where
  "readData h idxBase d =
     bindF (dataSize_loop (internalBuffer d) idxBase 0 0) (\<lambda>ds.
     let d1 = d\<lparr>dataSize := ds\<rparr> in
     bindF (sendCommand_P AT_CMD_HTTPREAD d1) (\<lambda>d2.
     bindF (readResponseCheckAnswer_P (DEFAULT_TIMEOUT h) AT_RSP_HTTPREAD 2 d2) (\<lambda>(ok, d3).
     if \<not> ok then Inr (Some 705, d3) else
     bindF (copy_loop 0 d3) (\<lambda>d4.
     let d5 = (if recvBufferSize d4 < unat (dataSize d4)
               then d4\<lparr>dataSize := of_nat (recvBufferSize d4)\<rparr> else d4) in
     bindF (readResponseCheckAnswer_P (DEFAULT_TIMEOUT h) AT_RSP_OK (crlfToWait_default h) d5) (\<lambda>(ok, d6).
     if \<not> ok then Inr (Some 705, d6) else Inr (None, d6))))))"

text \<open>
  What follows the call of \<^verbatim>\<open>readResponse(serverReadTimeoutMs)\<close> in both operations
  (lines 165-243 and 275-353); \<open>tag\<close> is \<^verbatim>\<open>"+HTTPACTION: 0,"\<close> or \<^verbatim>\<open>"+HTTPACTION: 1,"\<close>.
\<close>

definition actionResult :: "header \<Rightarrow> string \<Rightarrow> driver \<Rightarrow> fault + (16 word \<times> driver)" where
  "actionResult h tag d =
     bindF (strIndex_buf (internalBuffer d) tag 0) (\<lambda>idxBase.
     if idxBase < 0 then Inr (703, d) else
     bindF (httpRC_of (internalBuffer d) idxBase) (\<lambda>httpRC.
     bindF (if httpRC = 200 then readData h idxBase d else Inr (None, d)) (\<lambda>(early, d1).
     case early of
       Some rc \<Rightarrow> Inr (rc, d1)
     | None \<Rightarrow>
         bindF (terminateHTTP h d1) (\<lambda>(termRC, d2).
         if termRC > 0 then Inr (termRC, d2) else Inr (httpRC, d2)))))"

text \<open>The cleanup of the receive buffer that opens both operations.\<close>

definition cleanupRecv :: "driver \<Rightarrow> driver" where
  "cleanupRecv d = d\<lparr>recvBuffer := replicate (recvBufferSize d) NUL, dataSize := 0\<rparr>"

definition doGet :: "header \<Rightarrow> string \<Rightarrow> int \<Rightarrow> driver \<Rightarrow> fault + (16 word \<times> driver)" where
  "doGet h url serverReadTimeoutMs d =
     (let d0 = cleanupRecv d in
      bindF (initiateHTTP h url d0) (\<lambda>(initRC, d1).
      if initRC > 0 then Inr (initRC, d1) else
      bindF (sendCommand_P AT_CMD_HTTPACTION0 d1) (\<lambda>d2.
      bindF (readResponseCheckAnswer_P (DEFAULT_TIMEOUT h) AT_RSP_OK (crlfToWait_default h) d2) (\<lambda>(ok, d3).
      if \<not> ok then Inr (703, d3) else
      bindF (readResponse serverReadTimeoutMs (crlfToWait_default h) d3) (\<lambda>(ok, d4).
      if \<not> ok then Inr (408, d4) else
      actionResult h ''+HTTPACTION: 0,'' d4)))))"

text \<open>
  \<^verbatim>\<open>sprintf(tmpBuf, "AT+HTTPDATA=%d,%d", strlen(payload), clientWriteTimeoutMs)\<close>: \<open>%d\<close>
  prints a signed 16-bit \<^verbatim>\<open>int\<close> on the AVR targets.
\<close>

fun dec :: "nat \<Rightarrow> string" where
  "dec n = (if n < 10 then [char_of (48 + n)] else dec (n div 10) @ [char_of (48 + n mod 10)])"

declare dec.simps [simp del]

definition sprintf_d :: "nat \<Rightarrow> string" where
  "sprintf_d n =
     (let m = n mod 65536 in if m < 32768 then dec m else CHR ''-'' # dec (65536 - m))"

definition doPost ::
  "header \<Rightarrow> string \<Rightarrow> string \<Rightarrow> string \<Rightarrow> nat \<Rightarrow> int \<Rightarrow> driver \<Rightarrow> fault + (16 word \<times> driver)" where
  "doPost h url contentType payload clientWriteTimeoutMs serverReadTimeoutMs d =
     (let d0 = cleanupRecv d in
      bindF (initiateHTTP h url d0) (\<lambda>(initRC, d1).
      if initRC > 0 then Inr (initRC, d1) else
      bindF (sendCommand_P_param AT_CMD_HTTPPARA_CONTENT contentType d1) (\<lambda>d2.
      bindF (readResponseCheckAnswer_P (DEFAULT_TIMEOUT h) AT_RSP_OK (crlfToWait_default h) d2) (\<lambda>(ok, d3).
      if \<not> ok then Inr (702, d3) else
      bindF (sendCommand (''AT+HTTPDATA='' @ sprintf_d (length payload) @ '','' @ sprintf_d clientWriteTimeoutMs) d3) (\<lambda>d4.
      bindF (readResponseCheckAnswer_P (DEFAULT_TIMEOUT h) AT_RSP_DOWNLOAD (crlfToWait_default h) d4) (\<lambda>(ok, d5).
      if \<not> ok then Inr (707, d5) else
      bindF (readToForget 500 d5) (\<lambda>d6.
      let d7 = stream_write payload d6 in
      bindF (sendCommand_P AT_CMD_HTTPACTION1 d7) (\<lambda>d8.
      bindF (readResponseCheckAnswer_P (DEFAULT_TIMEOUT h) AT_RSP_OK (crlfToWait_default h) d8) (\<lambda>(ok, d9).
      if \<not> ok then Inr (703, d9) else
      bindF (readResponse serverReadTimeoutMs (crlfToWait_default h) d9) (\<lambda>(ok, d10).
      if \<not> ok then Inr (408, d10) else
      actionResult h ''+HTTPACTION: 1,'' d10))))))))))"

text \<open>\<^verbatim>\<open>getDataSizeReceived\<close> returns a \<^verbatim>\<open>uint8_t\<close> (lines 437-439).\<close>

definition getDataSizeReceived :: "driver \<Rightarrow> 8 word" where
  "getDataSizeReceived d = ucast (dataSize d)"

definition getDataReceived :: "driver \<Rightarrow> char list" where
  "getDataReceived d = recvBuffer d"

section \<open>Effects and the caller's view\<close>

text \<open>
  \<open>sent s d d'\<close>: from \<open>d\<close> to \<open>d'\<close> exactly the bytes \<open>s\<close> were written to the transport,
  and the receive buffer, the data size and the size of the internal buffer are the same.
\<close>

definition sent :: "string \<Rightarrow> driver \<Rightarrow> driver \<Rightarrow> bool" where
  "sent s d d' = (tx d' = tx d @ s \<and> recvBuffer d' = recvBuffer d \<and> dataSize d' = dataSize d
                  \<and> length (internalBuffer d') = length (internalBuffer d))"

text \<open>\<open>kept d d'\<close>: the receive buffer and the data size are the same in \<open>d\<close> and \<open>d'\<close>.\<close>

definition kept :: "driver \<Rightarrow> driver \<Rightarrow> bool" where
  "kept d d' = (recvBuffer d' = recvBuffer d \<and> dataSize d' = dataSize d)"

text \<open>
  What the caller has after \<^verbatim>\<open>doGet\<close> or \<^verbatim>\<open>doPost\<close>: the code returned, and what
  \<^verbatim>\<open>getDataSizeReceived\<close> and \<^verbatim>\<open>getDataReceived\<close> give.
\<close>

definition observed ::
  "fault + (16 word \<times> driver) \<Rightarrow> fault + (16 word \<times> 8 word \<times> char list)" where
  "observed r =
     (case r of
        Inl e \<Rightarrow> Inl e
      | Inr (rc, d) \<Rightarrow> Inr (rc, getDataSizeReceived d, getDataReceived d))"

text \<open>Decimal digits and the number written by a string of digits.\<close>

definition is_digit :: "char \<Rightarrow> bool" where
  "is_digit c = (c \<in> set ''0123456789'')"

definition dec_value :: "string \<Rightarrow> nat" where
  "dec_value ds = foldl (\<lambda>a c. 10 * a + nat (digit_of c)) 0 ds"

text \<open>
  The payload bytes of a byte string (what is left when CR and LF are dropped), and the
  length of its shortest prefix that holds \<open>n\<close> payload bytes.
\<close>

definition payload_of :: "string \<Rightarrow> string" where
  "payload_of s = filter (\<lambda>c. c \<noteq> CR \<and> c \<noteq> LF) s"

fun raw_needed :: "nat \<Rightarrow> string \<Rightarrow> nat" where
  "raw_needed 0 s = 0"
| "raw_needed (Suc n) [] = 0"
| "raw_needed (Suc n) (c # cs) =
     Suc (if c = CR \<or> c = LF then raw_needed (Suc n) cs else raw_needed n cs)"

section \<open>Example headers and devices\<close>

text \<open>
  Two values of the header: the default \<^verbatim>\<open>crlfToWait\<close> is 1 in the first, as the
  specification of the driver has it, and 2 in the second, which is what a module that puts
  every line between two CRLF needs. \<open>arrive t s\<close> is the byte string \<open>s\<close> reaching the transport at time \<open>t\<close>, and
  \<open>drv\<close> a driver with an 8 byte receive buffer that has fetched nothing yet.
\<close>

definition hdr1 :: header where
  "hdr1 = \<lparr>DEFAULT_TIMEOUT = 5000, crlfToWait_default = 1\<rparr>"

definition hdr2 :: header where
  "hdr2 = \<lparr>DEFAULT_TIMEOUT = 5000, crlfToWait_default = 2\<rparr>"

definition arrive :: "int \<Rightarrow> string \<Rightarrow> (int \<times> char) list" where
  "arrive t s = map (\<lambda>c. (t, c)) s"

definition drv :: "(int \<times> char) list \<Rightarrow> int \<Rightarrow> string \<Rightarrow> char list \<Rightarrow> driver" where
  "drv schedule t out buf =
     \<lparr>rx = schedule, clock = t, tx = out, internalBuffer = buf,
      recvBuffer = replicate 8 NUL, dataSize = 0\<rparr>"

text \<open>A driver with a 32 byte internal buffer whose next command is answered by \<open>reply\<close>.\<close>

definition asked :: "string \<Rightarrow> driver" where
  "asked reply = drv (arrive 510 reply) 0 [] (replicate 32 NUL)"

definition cfunReply :: "char \<Rightarrow> string" where
  "cfunReply c = CRLF @ ''+CFUN: '' @ [c] @ CRLF"

text \<open>The state after the query of \<open>asked reply\<close> has been sent and \<open>n\<close> bytes of the reply read.\<close>

definition answered :: "string \<Rightarrow> string \<Rightarrow> nat \<Rightarrow> driver" where
  "answered command reply n =
     drv (arrive 510 (drop n reply)) (510 + int n) (command @ CRLF)
       (take n reply @ replicate (32 - n) NUL)"

text \<open>
  A reply in which \<open>OK\<close> stands at index 2 and one in which it stands at index 0, each with
  the state once it is read.
\<close>

definition okReply :: driver where
  "okReply = drv (arrive 0 (CRLF @ ''OK'' @ CRLF)) 0 [] (replicate 16 NUL)"

definition okReply_read :: driver where
  "okReply_read = drv [] 6 [] (CRLF @ ''OK'' @ CRLF @ replicate 10 NUL)"

definition okFirst :: driver where
  "okFirst = drv (arrive 0 (''OK'' @ CRLF)) 0 [] (replicate 16 NUL)"

definition okFirst_read :: driver where
  "okFirst_read = drv [] 4 [] (''OK'' @ CRLF @ replicate 12 NUL)"

text \<open>
  A reply in which \<open>OK\<close> stands at index 3, after another \<open>O\<close>, with the state once it is
  read.
\<close>

definition ookReply :: driver where
  "ookReply = drv (arrive 0 (CRLF @ ''OOK'' @ CRLF)) 0 [] (replicate 16 NUL)"

definition ookReply_read :: driver where
  "ookReply_read = drv [] 7 [] (CRLF @ ''OOK'' @ CRLF @ replicate 9 NUL)"

text \<open>
  A module that is asked for another mode. It answers the first query with the mode \<open>c0\<close>,
  the mode change with \<open>reply\<close>, which is \<open>OK\<close> and two notifications, more than the 32 bytes
  of the internal buffer, and the second query with the mode \<open>c1\<close>. \<open>switching\<close> is the state
  before the call and \<open>switching1\<close> to \<open>switching4\<close> the states after the first query, after
  the command \<open>cmd\<close> is sent, after its reply is read and forgotten, and after the second
  query.
\<close>

definition readyReply :: string where
  "readyReply = CRLF @ ''OK'' @ CRLF @ CRLF @ ''Call Ready'' @ CRLF @ CRLF @ ''SMS Ready'' @ CRLF"

definition chatter :: string where
  "chatter = CRLF @ ''OK'' @ CRLF @ CRLF @ ''+CPIN: NOT READY'' @ CRLF @ CRLF @ ''+CREG: 0'' @ CRLF"

definition switching :: "char \<Rightarrow> string \<Rightarrow> char \<Rightarrow> driver" where
  "switching c0 reply c1 =
     drv (arrive 510 (cfunReply c0) @ arrive 1100 reply @ arrive 1700 (cfunReply c1)) 0 []
       (replicate 32 NUL)"

definition switching1 :: "char \<Rightarrow> string \<Rightarrow> char \<Rightarrow> driver" where
  "switching1 c0 reply c1 =
     drv (arrive 1100 reply @ arrive 1700 (cfunReply c1)) 522 (''AT+CFUN?'' @ CRLF)
       (cfunReply c0 @ replicate 20 NUL)"

definition switching2 :: "string \<Rightarrow> string \<Rightarrow> char \<Rightarrow> driver" where
  "switching2 cmd reply c1 =
     drv (arrive 1100 reply @ arrive 1700 (cfunReply c1)) 1023
       (''AT+CFUN?'' @ CRLF @ cmd @ CRLF) (replicate 32 NUL)"

definition switching3 :: "string \<Rightarrow> string \<Rightarrow> char \<Rightarrow> driver" where
  "switching3 cmd reply c1 =
     drv (arrive 1100 (drop 32 reply) @ arrive 1700 (cfunReply c1)) 1132
       (''AT+CFUN?'' @ CRLF @ cmd @ CRLF) (take 32 reply)"

definition switching4 :: "string \<Rightarrow> char \<Rightarrow> driver" where
  "switching4 cmd c1 =
     drv [] 1712 (''AT+CFUN?'' @ CRLF @ cmd @ CRLF @ ''AT+CFUN?'' @ CRLF)
       (cfunReply c1 @ replicate 20 NUL)"

text \<open>
  The five bytes \<open>H i CR ! LF\<close> waiting in the transport, a declared length of 3, and the
  state after the copy loop.
\<close>

definition hi :: driver where
  "hi = \<lparr>rx = arrive 0 (''Hi'' @ [CR] @ ''!'' @ [LF]), clock = 0, tx = [],
          internalBuffer = replicate 32 NUL, recvBuffer = replicate 8 NUL, dataSize = 3\<rparr>"

definition hi_copied :: driver where
  "hi_copied = \<lparr>rx = arrive 0 [LF], clock = 8, tx = [],
          internalBuffer = replicate 32 NUL, recvBuffer = ''Hi!'' @ replicate 5 NUL, dataSize = 3\<rparr>"

text \<open>
  A driver that holds the payload \<open>HELLO\<close> of an earlier fetch, and a module that answers
  the next command with \<open>ERROR\<close>.
\<close>

definition stale :: driver where
  "stale = \<lparr>rx = arrive 510 (CRLF @ ''ERROR'' @ CRLF), clock = 0, tx = [],
             internalBuffer = replicate 32 NUL,
             recvBuffer = ''HELLO'' @ replicate 3 NUL, dataSize = 5\<rparr>"

text \<open>
  A module that accepts the five commands up to the GET action, reports status 200 with
  5 bytes of data, and then answers \<^verbatim>\<open>AT+HTTPREAD\<close> with \<open>ERROR\<close>. In \<open>refused\<close> every line
  comes between two CRLF (for a default of two CRLF awaited), in \<open>refused1\<close> before one
  (for a default of one).
\<close>

definition okLine :: string where "okLine = CRLF @ ''OK'' @ CRLF"

definition refused :: driver where
  "refused = drv (arrive 510 okLine @ arrive 1100 okLine @ arrive 1700 okLine @ arrive 2300 okLine
                  @ arrive 2900 okLine @ arrive 3000 (CRLF @ ''+HTTPACTION: 0,200,5'' @ CRLF)
                  @ arrive 3600 (CRLF @ ''ERROR'' @ CRLF)) 0 [] (replicate 32 NUL)"

definition okLine1 :: string where "okLine1 = '' OK'' @ CRLF"

definition refused1 :: driver where
  "refused1 = drv (arrive 510 okLine1 @ arrive 1100 okLine1 @ arrive 1700 okLine1 @ arrive 2300 okLine1
                  @ arrive 2900 okLine1 @ arrive 3000 (''+HTTPACTION: 0,200,5'' @ CRLF)
                  @ arrive 3600 (''ERROR'' @ CRLF @ CRLF)) 0 [] (replicate 32 NUL)"

text \<open>
  A module that answers the five commands up to the GET action with \<open>ok\<close>, then sends
  \<open>action\<close>, and answers \<^verbatim>\<open>AT+HTTPREAD\<close> with \<open>readReply\<close>; and the pair a caller gets from a
  GET: the code returned and the data size the driver holds.
\<close>

definition session :: "string \<Rightarrow> string \<Rightarrow> string \<Rightarrow> driver" where
  "session ok action readReply =
     drv (arrive 510 ok @ arrive 1100 ok @ arrive 1700 ok @ arrive 2300 ok @ arrive 2900 ok
          @ arrive 3000 action @ arrive 3600 readReply) 0 [] (replicate 32 NUL)"

definition status_size :: "fault + (16 word \<times> driver) \<Rightarrow> fault + (16 word \<times> 16 word)" where
  "status_size r = (case r of Inl e \<Rightarrow> Inl e | Inr (rc, d) \<Rightarrow> Inr (rc, dataSize d))"

section \<open>Properties\<close>

subsection \<open>Sequencing\<close>

lemma bindF_Inr: "bindF m f = Inr y \<longleftrightarrow> (\<exists>x. m = Inr x \<and> f x = Inr y)"
  by (cases m) (simp_all add: bindF_def)

subsection \<open>What the transport operations leave alone\<close>

lemma sent_refl: "sent [] d d"
  by (simp add: sent_def)

lemma sent_trans: "sent a d d1 \<Longrightarrow> sent b d1 d2 \<Longrightarrow> sent (a @ b) d d2"
  by (simp add: sent_def)

lemma sent_trans0: "sent [] d d1 \<Longrightarrow> sent [] d1 d2 \<Longrightarrow> sent [] d d2"
  by (simp add: sent_def)

lemma sent_available: "stream_available d = (b, d1) \<Longrightarrow> sent [] d d1"
  by (auto simp: stream_available_def sent_def split: list.splits)

lemma sent_read: "stream_read d = (c, d1) \<Longrightarrow> sent [] d d1"
  by (auto simp: stream_read_def sent_def split: list.splits if_splits)

lemma sent_store: "sent [] d (d\<lparr>internalBuffer := (internalBuffer d)[k := c]\<rparr>)"
  by (simp add: sent_def)

lemma sent_init: "sent [] d (initInternalBuffer d)"
  by (simp add: sent_def initInternalBuffer_def internalBufferSize_def)

lemma sent_write: "sent s d (stream_write s d)"
  by (simp add: sent_def stream_write_def)

lemma readToForget_loop_sent:
  "readToForget_loop timeout timerStart csr d = Inr d' \<Longrightarrow> sent [] d d'"
proof (induction timeout timerStart csr d rule: readToForget_loop.induct)
  case (1 timeout timerStart csr d)
  obtain b d1 where av: "stream_available d = (b, d1)" by (cases "stream_available d")
  have f1: "sent [] d d1" by (rule sent_available [OF av])
  show ?case
  proof (cases b)
    case False
    show ?thesis
    proof (cases "millis d1 - timerStart > timeout")
      case True
      with "1.prems" av False have "d' = d1"
        by (simp add: readToForget_loop.simps [of _ _ _ d])
      with f1 show ?thesis by simp
    next
      case nt: False
      with "1.prems" av False have "readToForget_loop timeout timerStart csr d1 = Inr d'"
        by (simp add: readToForget_loop.simps [of _ _ _ d])
      with "1.IH"(2) [OF av [symmetric]] False nt have "sent [] d1 d'" by simp
      with f1 show ?thesis by (rule sent_trans0)
    qed
  next
    case avail: True
    obtain c d2 where rd: "stream_read d1 = (c, d2)" by (cases "stream_read d1")
    have f2: "sent [] d1 d2" by (rule sent_read [OF rd])
    let ?d3 = "d2\<lparr>internalBuffer := (internalBuffer d2)[csr := c]\<rparr>"
    have f3: "sent [] d ?d3"
      using f1 f2 sent_store [of d2 csr c] by (blast intro: sent_trans0)
    from "1.prems" av avail rd have nb: "\<not> csr \<ge> internalBufferSize d2"
      by (auto simp: readToForget_loop.simps [of _ _ _ d] split: if_splits)
    show ?thesis
    proof (cases "csr + 1 = internalBufferSize ?d3 \<or> millis ?d3 - timerStart > timeout")
      case True
      with "1.prems" av avail rd nb have "d' = ?d3"
        by (auto simp: readToForget_loop.simps [of _ _ _ d] Let_def split: if_splits)
      with f3 show ?thesis by simp
    next
      case cont: False
      with "1.prems" av avail rd nb
      have rec: "readToForget_loop timeout timerStart (csr + 1) ?d3 = Inr d'"
        by (auto simp: readToForget_loop.simps [of _ _ _ d] Let_def split: if_splits)
      have "sent [] ?d3 d'"
        by (rule "1.IH"(1) [OF av [symmetric] _ rd [symmetric] nb refl])
           (use avail cont rec in simp_all)
      with f3 show ?thesis by (rule sent_trans0)
    qed
  qed
qed

lemma readToForget_sent: "readToForget timeout d = Inr d' \<Longrightarrow> sent [] d d'"
  unfolding readToForget_def Let_def
  by (rule sent_trans0 [OF sent_init readToForget_loop_sent])

lemma readResponse_loop_sent:
  "readResponse_loop timeout crlfToWait timerStart csr seenCR countCRLF d = Inr (ok, d')
   \<Longrightarrow> sent [] d d'"
proof (induction timeout crlfToWait timerStart csr seenCR countCRLF d
       rule: readResponse_loop.induct)
  case (1 timeout crlfToWait timerStart csr seenCR countCRLF d)
  obtain b d1 where av: "stream_available d = (b, d1)" by (cases "stream_available d")
  have f1: "sent [] d d1" by (rule sent_available [OF av])
  show ?case
  proof (cases b)
    case False
    show ?thesis
    proof (cases "millis d1 - timerStart > timeout")
      case True
      with "1.prems" av False have "d' = d1"
        by (simp add: readResponse_loop.simps [of _ _ _ _ _ _ d])
      with f1 show ?thesis by simp
    next
      case nt: False
      with "1.prems" av False
      have "readResponse_loop timeout crlfToWait timerStart csr seenCR countCRLF d1 = Inr (ok, d')"
        by (simp add: readResponse_loop.simps [of _ _ _ _ _ _ d])
      with "1.IH"(2) [OF av [symmetric]] False nt have "sent [] d1 d'" by simp
      with f1 show ?thesis by (rule sent_trans0)
    qed
  next
    case avail: True
    obtain c d2 where rd: "stream_read d1 = (c, d2)" by (cases "stream_read d1")
    have f2: "sent [] d1 d2" by (rule sent_read [OF rd])
    let ?d3 = "d2\<lparr>internalBuffer := (internalBuffer d2)[csr := c]\<rparr>"
    have f3: "sent [] d ?d3"
      using f1 f2 sent_store [of d2 csr c] by (blast intro: sent_trans0)
    from "1.prems" av avail rd have nb: "\<not> csr \<ge> internalBufferSize d2"
      by (auto simp: readResponse_loop.simps [of _ _ _ _ _ _ d] split: if_splits)
    obtain brk s' n' where det: "detectCRLF c seenCR countCRLF crlfToWait = (brk, s', n')"
      by (cases "detectCRLF c seenCR countCRLF crlfToWait")
    show ?thesis
    proof (cases "brk \<or> csr + 1 = internalBufferSize ?d3 \<or> millis ?d3 - timerStart > timeout")
      case True
      with "1.prems" av avail rd nb det have "d' = ?d3"
        by (auto simp: readResponse_loop.simps [of _ _ _ _ _ _ d] Let_def split: if_splits)
      with f3 show ?thesis by simp
    next
      case cont: False
      with "1.prems" av avail rd nb det
      have rec: "readResponse_loop timeout crlfToWait timerStart (csr + 1) s' n' ?d3 = Inr (ok, d')"
        by (auto simp: readResponse_loop.simps [of _ _ _ _ _ _ d] Let_def split: if_splits)
      have "sent [] ?d3 d'"
        by (rule "1.IH"(1) [OF av [symmetric] _ rd [symmetric] nb refl det [symmetric] refl])
           (use avail cont rec in simp_all)
      with f3 show ?thesis by (rule sent_trans0)
    qed
  qed
qed

lemma readResponse_sent: "readResponse timeout crlfToWait d = Inr (ok, d') \<Longrightarrow> sent [] d d'"
  unfolding readResponse_def Let_def
  by (rule sent_trans0 [OF sent_init readResponse_loop_sent])

lemma sendCommand_sent: "sendCommand command d = Inr d' \<Longrightarrow> sent (command @ CRLF) d d'"
  by (auto simp: sendCommand_def bindF_def sent_def stream_write_def
           split: sum.splits dest!: readToForget_sent)

lemma sendCommand_P_sent: "sendCommand_P command d = Inr d' \<Longrightarrow> sent (command @ CRLF) d d'"
  by (auto simp: sendCommand_P_def split: if_splits dest: sendCommand_sent)

lemma sendCommand_param_sent:
  \<open>sendCommand_param command parameter d = Inr d'
   \<Longrightarrow> sent (command @ ''"'' @ parameter @ ''"'' @ CRLF) d d'\<close>
  by (auto simp: sendCommand_param_def bindF_def sent_def stream_write_def
           split: sum.splits dest!: readToForget_sent)

lemma sendCommand_P_param_sent:
  \<open>sendCommand_P_param command parameter d = Inr d'
   \<Longrightarrow> sent (command @ ''"'' @ parameter @ ''"'' @ CRLF) d d'\<close>
  by (auto simp: sendCommand_P_param_def split: if_splits dest: sendCommand_param_sent)

lemma readResponseCheckAnswer_P_sent:
  "readResponseCheckAnswer_P timeout expectedAnswer crlfToWait d = Inr (ok, d') \<Longrightarrow> sent [] d d'"
  by (auto simp: readResponseCheckAnswer_P_def bindF_def
           split: sum.splits if_splits dest: readResponse_sent)

lemma getPowerMode_sent:
  assumes g: "getPowerMode h d = Inr (m, d')"
  shows "sent (AT_CMD_CFUN_TEST @ CRLF) d d'"
proof -
  from g obtain d1 ok d2 where s: "sendCommand_P AT_CMD_CFUN_TEST d = Inr d1"
    and r: "readResponse (DEFAULT_TIMEOUT h) (crlfToWait_default h) d1 = Inr (ok, d2)"
    and rest: "(if ok then
         bindF (strIndex_buf (internalBuffer d2) ''ERROR'' 0) (\<lambda>errIdx.
           if errIdx > 0 then Inr (POW_ERROR, d2)
           else
             bindF (strIndex_buf (internalBuffer d2) ''+CFUN: '' 0) (\<lambda>idx.
             bindF (at (internalBuffer d2) (idx + 7)) (\<lambda>value.
               Inr (powerMode_of value, d2))))
       else Inr (POW_ERROR, d2)) = Inr (m, d')"
    unfolding getPowerMode_def bindF_Inr by auto
  from rest have "d' = d2"
    by (auto simp: bindF_Inr split: if_splits)
  with sent_trans [OF sendCommand_P_sent [OF s] readResponse_sent [OF r]]
  show ?thesis by simp
qed


subsection \<open>The matcher\<close>

text \<open>
  Claim C2. \<^verbatim>\<open>strIndex\<close> is to return the index of the first occurrence of the needle
  at or after the start offset, and -1 when there is none. The loop never steps back after
  a partial match: in \<open>AAB\<close> the needle \<open>AB\<close> occurs at index 1, the partial match at index 0
  is dropped on the second \<open>A\<close>, that \<open>A\<close> is not looked at again, and the search ends with -1.
  The three examples of the claim hold.
\<close>

theorem strIndex_misses_occurrence:
  "strIndex ''AAB'' ''AB'' 0 = - 1 \<and> occurs_at ''AAB'' ''AB'' 1
   \<and> strIndex ''ABCDEF'' ''CD'' 0 = 2 \<and> strIndex ''ABCDEF'' ''ZZ'' 0 = - 1
   \<and> strIndex ''ABCDEF'' ''CD'' 3 = - 1"
  by (simp add: strIndex_def wrap16_def occurs_at_def)


subsection \<open>The response reader\<close>

text \<open>
  Claim C1. \<^verbatim>\<open>readResponse\<close> is to succeed exactly when the \<open>crlfToWait\<close>-th CRLF sequence
  is seen or the buffer is full before the timeout. The flag \<open>seenCR\<close> is not cleared when
  an LF is counted, so an LF that follows a counted LF is counted again: on the three bytes
  CR LF LF, which hold one CRLF sequence, a call that waits for two of them succeeds after
  3 ms, with 13 of the 16 bytes of the buffer still free.
\<close>

theorem readResponse_counts_LF_twice:
  "readResponse 1000 2 (drv (arrive 0 [CR, LF, LF]) 0 [] (replicate 16 NUL))
     = Inr (True, drv [] 3 [] ([CR, LF, LF] @ replicate 13 NUL))
   \<and> count_crlf [CR, LF, LF] = 1"
  by code_simp

subsection \<open>The answer check\<close>

text \<open>
  Claim C3. \<^verbatim>\<open>readResponseCheckAnswer_P\<close> is to return true exactly when \<^verbatim>\<open>readResponse\<close>
  succeeds and the expected answer stands in the internal buffer at an index greater than
  0. The index is the one \<^verbatim>\<open>strIndex\<close> returns, and \<^verbatim>\<open>strIndex\<close> does not step back after a
  partial match: on the reply CR LF \<open>OOK\<close> CR LF, read in full after two CRLF, the answer
  \<open>OK\<close> stands at index 3 and the call returns false. On CR LF \<open>OK\<close> CR LF it returns true,
  and on \<open>OK\<close> CR LF, where the answer stands at index 0, false.
\<close>

theorem checkAnswer_misses_token:
  "readResponse 1000 2 ookReply = Inr (True, ookReply_read)
   \<and> cstr (internalBuffer ookReply_read) = Inr (CRLF @ ''OOK'' @ CRLF)
   \<and> occurs_at (CRLF @ ''OOK'' @ CRLF) ''OK'' 3
   \<and> readResponseCheckAnswer_P 1000 ''OK'' 2 ookReply = Inr (False, ookReply_read)
   \<and> readResponseCheckAnswer_P 1000 ''OK'' 2 okReply = Inr (True, okReply_read)
   \<and> readResponseCheckAnswer_P 1000 ''OK'' 1 okFirst = Inr (False, okFirst_read)"
  by code_simp

subsection \<open>Status queries\<close>

text \<open>
  Claim C9. A status query is to return its ERROR value whenever \<open>ERROR\<close> occurs in the
  response it has read. The test is \<^verbatim>\<open>errIdx > 0\<close>: when the response starts with \<open>ERROR\<close>
  the index is 0, the query goes on to extract a value and returns UNKNOWN. This is so
  for both queries and with one or two CRLF awaited.
\<close>

theorem status_query_misses_ERROR_at_0:
  "getPowerMode hdr1 (asked (''ERROR'' @ CRLF @ CRLF))
     = Inr (POW_UNKNOWN, answered AT_CMD_CFUN_TEST (''ERROR'' @ CRLF @ CRLF) 7)
   \<and> getPowerMode hdr2 (asked (''ERROR'' @ CRLF @ CRLF))
     = Inr (POW_UNKNOWN, answered AT_CMD_CFUN_TEST (''ERROR'' @ CRLF @ CRLF) 9)
   \<and> getRegistrationStatus hdr1 (asked (''ERROR'' @ CRLF @ CRLF))
     = Inr (NET_UNKNOWN, answered AT_CMD_CREG_TEST (''ERROR'' @ CRLF @ CRLF) 7)
   \<and> getRegistrationStatus hdr2 (asked (''ERROR'' @ CRLF @ CRLF))
     = Inr (NET_UNKNOWN, answered AT_CMD_CREG_TEST (''ERROR'' @ CRLF @ CRLF) 9)
   \<and> strIndex_buf (internalBuffer (answered AT_CMD_CFUN_TEST (''ERROR'' @ CRLF @ CRLF) 7)) ''ERROR'' 0
     = Inr 0
   \<and> occurs_at (''ERROR'' @ CRLF) ''ERROR'' 0"
  by code_simp

text \<open>
  Claim C10. In \<^verbatim>\<open>getSignal\<close> the reads at \<open>idxEnd - 1\<close> and \<open>idxEnd - 2\<close> are to stay inside
  the buffer whenever the response starts with \<open>AT+CSQ\<close>. When the response has no comma,
  \<open>idxEnd\<close> is -1 and is not tested: the first read is at index -2. Here the module echoes the
  command and answers \<open>ERROR\<close>.
\<close>

theorem getSignal_reads_before_buffer:
  "getSignal hdr1 (asked (''AT+CSQ'' @ [CR] @ CRLF @ ''ERROR'' @ CRLF)) = Inl OutOfBounds
   \<and> getSignal hdr2 (asked (''AT+CSQ'' @ [CR] @ CRLF @ ''ERROR'' @ CRLF)) = Inl OutOfBounds
   \<and> strIndex_buf (''AT+CSQ'' @ [CR] @ CRLF @ ''ERROR'' @ CRLF @ replicate 16 NUL) ''AT+CSQ'' 0 = Inr 0
   \<and> strIndex_buf (''AT+CSQ'' @ [CR] @ CRLF @ ''ERROR'' @ CRLF @ replicate 16 NUL) '','' 0 = Inr (- 1)
   \<and> at (''AT+CSQ'' @ [CR] @ CRLF @ ''ERROR'' @ CRLF @ replicate 16 NUL) (- 1 - 1) = Inl OutOfBounds"
  by code_simp

subsection \<open>Power mode transition\<close>

text \<open>
  Claim C8. \<^verbatim>\<open>setPowerMode\<close>:
  \<^item> for a requested mode ERROR or UNKNOWN it returns false and the driver is untouched,
    nothing is sent;
  \<^item> otherwise it queries the mode, which writes the query \<open>AT+CFUN?\<close> and nothing else, and
    with the mode \<open>cur\<close> found: false when \<open>cur\<close> is ERROR or UNKNOWN; true when \<open>cur\<close> is the
    requested mode; false when \<open>cur\<close> is SLEEP or MINIMUM and the request is not NORMAL; in
    these three cases no mode change command is written;
  \<^item> in every other case it writes the mode change command \<open>cmd\<close>, which is \<open>AT+CFUN=0\<close> for
    MINIMUM, \<open>AT+CFUN=4\<close> for SLEEP and \<open>AT+CFUN=1\<close> for NORMAL, reads and forgets for 10 s,
    queries again, and returns whether the mode found now is the requested one; the bytes
    written are the query, the command and the query, each followed by CR LF.
\<close>

theorem setPowerMode_transitions:
  "(powerMode = POW_ERROR \<or> powerMode = POW_UNKNOWN \<longrightarrow>
      setPowerMode h powerMode d = Inr (False, d))
   \<and> (powerMode \<noteq> POW_ERROR \<and> powerMode \<noteq> POW_UNKNOWN \<and> getPowerMode h d = Inr (cur, d1) \<longrightarrow>
        tx d1 = tx d @ ''AT+CFUN?'' @ CRLF
        \<and> (cur = POW_ERROR \<or> cur = POW_UNKNOWN \<longrightarrow> setPowerMode h powerMode d = Inr (False, d1))
        \<and> (cur = powerMode \<longrightarrow> setPowerMode h powerMode d = Inr (True, d1))
        \<and> ((cur = SLEEP \<or> cur = MINIMUM) \<and> powerMode \<noteq> NORMAL \<and> cur \<noteq> powerMode \<longrightarrow>
             setPowerMode h powerMode d = Inr (False, d1))
        \<and> (cur \<noteq> POW_ERROR \<and> cur \<noteq> POW_UNKNOWN \<and> cur \<noteq> powerMode
             \<and> \<not> ((cur = SLEEP \<or> cur = MINIMUM) \<and> powerMode \<noteq> NORMAL)
             \<and> (powerMode = MINIMUM \<and> cmd = ''AT+CFUN=0''
                  \<or> powerMode = SLEEP \<and> cmd = ''AT+CFUN=4''
                  \<or> powerMode = NORMAL \<and> cmd = ''AT+CFUN=1'')
             \<and> sendCommand_P cmd d1 = Inr d2
             \<and> readToForget 10000 d2 = Inr d3
             \<and> getPowerMode h d3 = Inr (cur', d4) \<longrightarrow>
             setPowerMode h powerMode d = Inr (cur' = powerMode, d4)
             \<and> tx d4 = tx d @ ''AT+CFUN?'' @ CRLF @ cmd @ CRLF @ ''AT+CFUN?'' @ CRLF))"
proof (intro conjI impI)
  assume "powerMode = POW_ERROR \<or> powerMode = POW_UNKNOWN"
  then show "setPowerMode h powerMode d = Inr (False, d)"
    by (auto simp: setPowerMode_def)
next
  assume a: "powerMode \<noteq> POW_ERROR \<and> powerMode \<noteq> POW_UNKNOWN \<and> getPowerMode h d = Inr (cur, d1)"
  then show "tx d1 = tx d @ ''AT+CFUN?'' @ CRLF"
    using getPowerMode_sent [of h d cur d1] by (simp add: sent_def AT_CMD_CFUN_TEST_def)
  {
    assume "cur = POW_ERROR \<or> cur = POW_UNKNOWN"
    with a show "setPowerMode h powerMode d = Inr (False, d1)"
      by (auto simp: setPowerMode_def bindF_def)
  }
  {
    assume "cur = powerMode"
    with a show "setPowerMode h powerMode d = Inr (True, d1)"
      by (auto simp: setPowerMode_def bindF_def)
  }
  {
    assume "(cur = SLEEP \<or> cur = MINIMUM) \<and> powerMode \<noteq> NORMAL \<and> cur \<noteq> powerMode"
    with a show "setPowerMode h powerMode d = Inr (False, d1)"
      by (auto simp: setPowerMode_def bindF_def)
  }
  {
    assume b: "cur \<noteq> POW_ERROR \<and> cur \<noteq> POW_UNKNOWN \<and> cur \<noteq> powerMode
             \<and> \<not> ((cur = SLEEP \<or> cur = MINIMUM) \<and> powerMode \<noteq> NORMAL)
             \<and> (powerMode = MINIMUM \<and> cmd = ''AT+CFUN=0''
                  \<or> powerMode = SLEEP \<and> cmd = ''AT+CFUN=4''
                  \<or> powerMode = NORMAL \<and> cmd = ''AT+CFUN=1'')
             \<and> sendCommand_P cmd d1 = Inr d2
             \<and> readToForget 10000 d2 = Inr d3
             \<and> getPowerMode h d3 = Inr (cur', d4)"
    then have cmd: "cfun_command powerMode = cmd"
      by (auto simp: cfun_command_def AT_CMD_CFUN0_def AT_CMD_CFUN1_def AT_CMD_CFUN4_def)
    with a b show "setPowerMode h powerMode d = Inr (cur' = powerMode, d4)"
      by (auto simp: setPowerMode_def bindF_def)
    from a b have "sent (AT_CMD_CFUN_TEST @ CRLF) d d1"
      and "sent (cmd @ CRLF) d1 d2"
      and "sent [] d2 d3"
      and "sent (AT_CMD_CFUN_TEST @ CRLF) d3 d4"
      by (auto intro: getPowerMode_sent sendCommand_P_sent readToForget_sent)
    then show "tx d4 = tx d @ ''AT+CFUN?'' @ CRLF @ cmd @ CRLF @ ''AT+CFUN?'' @ CRLF"
      by (simp add: sent_def AT_CMD_CFUN_TEST_def)
  }
qed

lemma asked_runs:
  "getPowerMode hdr2 (asked (CRLF @ ''ERROR'' @ CRLF))
     = Inr (POW_ERROR, answered ''AT+CFUN?'' (CRLF @ ''ERROR'' @ CRLF) 9)"
  "getPowerMode hdr2 (asked (cfunReply CHR ''1''))
     = Inr (NORMAL, answered ''AT+CFUN?'' (cfunReply CHR ''1'') 12)"
  "getPowerMode hdr2 (asked (cfunReply CHR ''4''))
     = Inr (SLEEP, answered ''AT+CFUN?'' (cfunReply CHR ''4'') 12)"
  by code_simp+

lemma to_normal_runs:
  "getPowerMode hdr2 (switching CHR ''4'' readyReply CHR ''1'')
     = Inr (SLEEP, switching1 CHR ''4'' readyReply CHR ''1'')"
  "sendCommand_P ''AT+CFUN=1'' (switching1 CHR ''4'' readyReply CHR ''1'')
     = Inr (switching2 ''AT+CFUN=1'' readyReply CHR ''1'')"
  "readToForget 10000 (switching2 ''AT+CFUN=1'' readyReply CHR ''1'')
     = Inr (switching3 ''AT+CFUN=1'' readyReply CHR ''1'')"
  "getPowerMode hdr2 (switching3 ''AT+CFUN=1'' readyReply CHR ''1'')
     = Inr (NORMAL, switching4 ''AT+CFUN=1'' CHR ''1'')"
  by code_simp+

lemma to_minimum_runs:
  "getPowerMode hdr2 (switching CHR ''1'' chatter CHR ''0'')
     = Inr (NORMAL, switching1 CHR ''1'' chatter CHR ''0'')"
  "sendCommand_P ''AT+CFUN=0'' (switching1 CHR ''1'' chatter CHR ''0'')
     = Inr (switching2 ''AT+CFUN=0'' chatter CHR ''0'')"
  "readToForget 10000 (switching2 ''AT+CFUN=0'' chatter CHR ''0'')
     = Inr (switching3 ''AT+CFUN=0'' chatter CHR ''0'')"
  "getPowerMode hdr2 (switching3 ''AT+CFUN=0'' chatter CHR ''0'')
     = Inr (MINIMUM, switching4 ''AT+CFUN=0'' CHR ''0'')"
  by code_simp+

lemma to_sleep_runs:
  "getPowerMode hdr2 (switching CHR ''1'' chatter CHR ''1'')
     = Inr (NORMAL, switching1 CHR ''1'' chatter CHR ''1'')"
  "sendCommand_P ''AT+CFUN=4'' (switching1 CHR ''1'' chatter CHR ''1'')
     = Inr (switching2 ''AT+CFUN=4'' chatter CHR ''1'')"
  "readToForget 10000 (switching2 ''AT+CFUN=4'' chatter CHR ''1'')
     = Inr (switching3 ''AT+CFUN=4'' chatter CHR ''1'')"
  "getPowerMode hdr2 (switching3 ''AT+CFUN=4'' chatter CHR ''1'')
     = Inr (NORMAL, switching4 ''AT+CFUN=4'' CHR ''1'')"
  by code_simp+

theorem setPowerMode_transitions_witness:
  "setPowerMode hdr2 POW_UNKNOWN (asked []) = Inr (False, asked [])
   \<and> setPowerMode hdr2 NORMAL (asked (CRLF @ ''ERROR'' @ CRLF))
       = Inr (False, answered ''AT+CFUN?'' (CRLF @ ''ERROR'' @ CRLF) 9)
   \<and> setPowerMode hdr2 NORMAL (asked (cfunReply CHR ''1''))
       = Inr (True, answered ''AT+CFUN?'' (cfunReply CHR ''1'') 12)
   \<and> setPowerMode hdr2 MINIMUM (asked (cfunReply CHR ''4''))
       = Inr (False, answered ''AT+CFUN?'' (cfunReply CHR ''4'') 12)
   \<and> tx (answered ''AT+CFUN?'' (cfunReply CHR ''4'') 12) = ''AT+CFUN?'' @ CRLF
   \<and> setPowerMode hdr2 NORMAL (switching CHR ''4'' readyReply CHR ''1'')
       = Inr (True, switching4 ''AT+CFUN=1'' CHR ''1'')
   \<and> setPowerMode hdr2 MINIMUM (switching CHR ''1'' chatter CHR ''0'')
       = Inr (True, switching4 ''AT+CFUN=0'' CHR ''0'')
   \<and> setPowerMode hdr2 SLEEP (switching CHR ''1'' chatter CHR ''1'')
       = Inr (False, switching4 ''AT+CFUN=4'' CHR ''1'')
   \<and> tx (switching4 ''AT+CFUN=0'' CHR ''0'')
       = ''AT+CFUN?'' @ CRLF @ ''AT+CFUN=0'' @ CRLF @ ''AT+CFUN?'' @ CRLF
   \<and> tx (switching4 ''AT+CFUN=4'' CHR ''1'')
       = ''AT+CFUN?'' @ CRLF @ ''AT+CFUN=4'' @ CRLF @ ''AT+CFUN?'' @ CRLF"
proof -
  have a: "setPowerMode hdr2 POW_UNKNOWN (asked []) = Inr (False, asked [])"
    using setPowerMode_transitions [where powerMode = POW_UNKNOWN and h = hdr2 and d = "asked []"]
    by simp
  have b: "setPowerMode hdr2 NORMAL (asked (CRLF @ ''ERROR'' @ CRLF))
       = Inr (False, answered ''AT+CFUN?'' (CRLF @ ''ERROR'' @ CRLF) 9)"
    using setPowerMode_transitions [where powerMode = NORMAL and h = hdr2
        and d = "asked (CRLF @ ''ERROR'' @ CRLF)" and cur = POW_ERROR
        and ?d1.0 = "answered ''AT+CFUN?'' (CRLF @ ''ERROR'' @ CRLF) 9"] asked_runs(1)
    by simp
  have c: "setPowerMode hdr2 NORMAL (asked (cfunReply CHR ''1''))
       = Inr (True, answered ''AT+CFUN?'' (cfunReply CHR ''1'') 12)"
    using setPowerMode_transitions [where powerMode = NORMAL and h = hdr2
        and d = "asked (cfunReply CHR ''1'')" and cur = NORMAL
        and ?d1.0 = "answered ''AT+CFUN?'' (cfunReply CHR ''1'') 12"] asked_runs(2)
    by simp
  have d: "setPowerMode hdr2 MINIMUM (asked (cfunReply CHR ''4''))
       = Inr (False, answered ''AT+CFUN?'' (cfunReply CHR ''4'') 12)
     \<and> tx (answered ''AT+CFUN?'' (cfunReply CHR ''4'') 12)
       = tx (asked (cfunReply CHR ''4'')) @ ''AT+CFUN?'' @ CRLF"
    using setPowerMode_transitions [where powerMode = MINIMUM and h = hdr2
        and d = "asked (cfunReply CHR ''4'')" and cur = SLEEP
        and ?d1.0 = "answered ''AT+CFUN?'' (cfunReply CHR ''4'') 12"] asked_runs(3)
    by simp
  have e: "setPowerMode hdr2 NORMAL (switching CHR ''4'' readyReply CHR ''1'')
       = Inr (True, switching4 ''AT+CFUN=1'' CHR ''1'')"
    using setPowerMode_transitions [where powerMode = NORMAL and h = hdr2
        and d = "switching CHR ''4'' readyReply CHR ''1''" and cur = SLEEP
        and ?d1.0 = "switching1 CHR ''4'' readyReply CHR ''1''" and cmd = "''AT+CFUN=1''"
        and ?d2.0 = "switching2 ''AT+CFUN=1'' readyReply CHR ''1''"
        and ?d3.0 = "switching3 ''AT+CFUN=1'' readyReply CHR ''1''"
        and cur' = NORMAL and ?d4.0 = "switching4 ''AT+CFUN=1'' CHR ''1''"] to_normal_runs
    by simp
  have f: "setPowerMode hdr2 MINIMUM (switching CHR ''1'' chatter CHR ''0'')
       = Inr (True, switching4 ''AT+CFUN=0'' CHR ''0'')
     \<and> tx (switching4 ''AT+CFUN=0'' CHR ''0'')
       = tx (switching CHR ''1'' chatter CHR ''0'')
         @ ''AT+CFUN?'' @ CRLF @ ''AT+CFUN=0'' @ CRLF @ ''AT+CFUN?'' @ CRLF"
    using setPowerMode_transitions [where powerMode = MINIMUM and h = hdr2
        and d = "switching CHR ''1'' chatter CHR ''0''" and cur = NORMAL
        and ?d1.0 = "switching1 CHR ''1'' chatter CHR ''0''" and cmd = "''AT+CFUN=0''"
        and ?d2.0 = "switching2 ''AT+CFUN=0'' chatter CHR ''0''"
        and ?d3.0 = "switching3 ''AT+CFUN=0'' chatter CHR ''0''"
        and cur' = MINIMUM and ?d4.0 = "switching4 ''AT+CFUN=0'' CHR ''0''"] to_minimum_runs
    by simp
  have g: "setPowerMode hdr2 SLEEP (switching CHR ''1'' chatter CHR ''1'')
       = Inr (False, switching4 ''AT+CFUN=4'' CHR ''1'')
     \<and> tx (switching4 ''AT+CFUN=4'' CHR ''1'')
       = tx (switching CHR ''1'' chatter CHR ''1'')
         @ ''AT+CFUN?'' @ CRLF @ ''AT+CFUN=4'' @ CRLF @ ''AT+CFUN?'' @ CRLF"
    using setPowerMode_transitions [where powerMode = SLEEP and h = hdr2
        and d = "switching CHR ''1'' chatter CHR ''1''" and cur = NORMAL
        and ?d1.0 = "switching1 CHR ''1'' chatter CHR ''1''" and cmd = "''AT+CFUN=4''"
        and ?d2.0 = "switching2 ''AT+CFUN=4'' chatter CHR ''1''"
        and ?d3.0 = "switching3 ''AT+CFUN=4'' chatter CHR ''1''"
        and cur' = NORMAL and ?d4.0 = "switching4 ''AT+CFUN=4'' CHR ''1''"] to_sleep_runs
    by simp
  have t: "tx (switching CHR ''1'' chatter CHR ''0'') = []"
    "tx (switching CHR ''1'' chatter CHR ''1'') = []"
    "tx (asked (cfunReply CHR ''4'')) = []"
    by (simp_all add: switching_def asked_def drv_def)
  from a b c d e f g show ?thesis
    unfolding t by simp
qed


subsection \<open>The HTTP action line\<close>

lemma digit_of_range: "(0 \<le> digit_of c \<and> digit_of c \<le> 9) \<longleftrightarrow> is_digit c"
proof
  assume "is_digit c"
  then show "0 \<le> digit_of c \<and> digit_of c \<le> 9"
    by (auto simp: is_digit_def digit_of_def char_val_def)
next
  assume a: "0 \<le> digit_of c \<and> digit_of c \<le> 9"
  define n where "n = (of_char c :: nat)"
  have "int n = of_char c" by (simp add: n_def of_nat_of_char)
  moreover have "(of_char c :: int) < 256"
    using pos_mod_bound [of 256 "of_char c :: int"] by simp
  ultimately have "48 \<le> n \<and> n \<le> 57"
    using a by (auto simp: digit_of_def char_val_def Let_def split: if_splits)
  then have "n \<in> {48, 49, 50, 51, 52, 53, 54, 55, 56, 57}" by (simp, arith)
  then have "(of_char c :: nat) \<in> of_char ` set ''0123456789''"
    by (simp add: n_def)
  then obtain c' where c': "c' \<in> set ''0123456789''" "(of_char c :: nat) = of_char c'"
    by blast
  then have "c = c'" by simp
  with c' show "is_digit c"
    by (simp add: is_digit_def)
qed

lemma at_append: "k = int (length xs) \<Longrightarrow> at (xs @ y # ys) k = Inr y"
  by (simp add: at_def)

lemma dec_value_snoc: "dec_value (ds @ [c]) = 10 * dec_value ds + nat (digit_of c)"
  by (simp add: dec_value_def)

lemma dataSize_loop_digits:
  assumes "\<forall>x \<in> set ds2. is_digit x" "\<not> is_digit c"
    "idxBase + 19 = int (length pre)"
  shows "dataSize_loop (pre @ ds1 @ ds2 @ c # rest) idxBase (length ds1) (of_nat (dec_value ds1))
         = Inr (of_nat (dec_value (ds1 @ ds2)))"
  using assms
proof (induction ds2 arbitrary: ds1)
  case Nil
  then have "at ((pre @ ds1) @ c # rest) (idxBase + 19 + int (length ds1)) = Inr c"
    by (intro at_append) simp
  with Nil show ?case
    by (simp add: dataSize_loop.simps [of _ _ "length ds1"] digit_of_range)
next
  case (Cons x xs)
  from Cons.prems have x: "is_digit x" by simp
  then have dx: "0 \<le> digit_of x \<and> digit_of x \<le> 9" by (simp add: digit_of_range)
  from Cons.prems have "at ((pre @ ds1) @ x # (xs @ c # rest)) (idxBase + 19 + int (length ds1)) = Inr x"
    by (intro at_append) simp
  then have at: "at (pre @ ds1 @ (x # xs) @ c # rest) (idxBase + 19 + int (length ds1)) = Inr x"
    by simp
  have acc: "(if length ds1 \<noteq> 0 then (of_nat (dec_value ds1) :: 16 word) * 10 else of_nat (dec_value ds1))
               + of_int (digit_of x) = of_nat (dec_value (ds1 @ [x]))"
  proof -
    have w: "(of_int (digit_of x) :: 16 word) = of_nat (nat (digit_of x))"
      using dx by simp
    show ?thesis
    proof (cases "ds1 = []")
      case True
      with w show ?thesis by (simp add: dec_value_def)
    next
      case False
      with w show ?thesis by (simp add: dec_value_snoc)
    qed
  qed
  from Cons.IH [of "ds1 @ [x]"] Cons.prems
  have "dataSize_loop (pre @ ds1 @ (x # xs) @ c # rest) idxBase (length ds1 + 1)
          (of_nat (dec_value (ds1 @ [x]))) = Inr (of_nat (dec_value (ds1 @ x # xs)))"
    by simp
  with at dx acc show ?case
    by (simp add: dataSize_loop.simps [of _ _ "length ds1"])
qed


lemma httpRC_of_action:
  "httpRC_of (pre @ ''+HTTPACTION: 0,200,'' @ tl0) (int (length pre)) = Inr 200"
proof -
  let ?buf = "pre @ ''+HTTPACTION: 0,200,'' @ tl0"
  have "at ((pre @ ''+HTTPACTION: 0,'') @ CHR ''2'' # (''00,'' @ tl0)) (int (length pre) + 15) = Inr CHR ''2''"
    by (rule at_append) simp
  then have a: "at ?buf (int (length pre) + 15) = Inr CHR ''2''" by simp
  have "at ((pre @ ''+HTTPACTION: 0,2'') @ CHR ''0'' # (''0,'' @ tl0)) (int (length pre) + 16) = Inr CHR ''0''"
    by (rule at_append) simp
  then have b: "at ?buf (int (length pre) + 16) = Inr CHR ''0''" by simp
  have "at ((pre @ ''+HTTPACTION: 0,20'') @ CHR ''0'' # ('','' @ tl0)) (int (length pre) + 17) = Inr CHR ''0''"
    by (rule at_append) simp
  then have c: "at ?buf (int (length pre) + 17) = Inr CHR ''0''" by simp
  have d: "digit_of CHR ''2'' = 2" "digit_of CHR ''0'' = 0"
    by (simp_all add: digit_of_def char_val_def)
  show ?thesis
    unfolding httpRC_of_def a b c bindF_def by (simp add: d)
qed


text \<open>
  Claim C4. When the response to the GET action holds \<open>+HTTPACTION: 0,200,1234\<close>, \<^verbatim>\<open>doGet\<close>
  is to read the status 200 and the length 1234 from it. It looks for the line with
  \<^verbatim>\<open>strIndex\<close>, which does not step back after a partial match: when a \<open>+\<close> stands right
  before the line, so that the line starts at index 3 of the internal buffer (index 1 with
  one CRLF awaited), the line is not found and \<^verbatim>\<open>doGet\<close> returns 703 with a data size of 0.
  Without that \<open>+\<close> the line is found, the status read is 200 and the data size 1234: the
  module then refuses \<^verbatim>\<open>AT+HTTPREAD\<close> and \<^verbatim>\<open>doGet\<close> returns 705, the code of the step that
  only a status of 200 leads to. The two lemmas above give the values read once the line is
  found.
\<close>

theorem doGet_misses_action_line:
  "status_size (doGet hdr2 ''http://example.com/'' 10000
      (session okLine (CRLF @ ''++HTTPACTION: 0,200,1234'' @ CRLF) [])) = Inr (703, 0)
   \<and> status_size (doGet hdr1 ''http://example.com/'' 10000
      (session okLine1 (''++HTTPACTION: 0,200,1234'' @ CRLF) [])) = Inr (703, 0)
   \<and> occurs_at (CRLF @ ''++HTTPACTION: 0,200,1234'' @ CRLF) ''+HTTPACTION: 0,200,1234'' 3
   \<and> occurs_at (''++HTTPACTION: 0,200,1234'' @ CRLF) ''+HTTPACTION: 0,200,1234'' 1
   \<and> status_size (doGet hdr2 ''http://example.com/'' 10000
      (session okLine (CRLF @ ''+HTTPACTION: 0,200,1234'' @ CRLF) (CRLF @ ''ERROR'' @ CRLF)))
       = Inr (705, 1234)"
  by code_simp


subsection \<open>The payload copy\<close>

lemma wait_available_clock:
  "wait_available d = Inr d' \<Longrightarrow> \<exists>k. d' = d\<lparr>clock := k\<rparr>"
proof (induction d rule: wait_available.induct)
  case (1 d)
  obtain b d1 where sa: "stream_available d = (b, d1)" by (cases "stream_available d")
  then have d1: "d1 = d\<lparr>clock := clock d + 1\<rparr>"
    by (auto simp: stream_available_def split: list.splits)
  show ?case
  proof (cases b)
    case True
    with "1.prems" sa have "d' = d1"
      by (simp add: wait_available.simps [of d])
    with d1 show ?thesis by blast
  next
    case False
    with "1.prems" sa have ne: "rx d \<noteq> []" and w: "wait_available d1 = Inr d'"
      by (auto simp: wait_available.simps [of d] split: if_splits)
    from "1.IH" [OF sa [symmetric] _ ne w] False obtain k where "d' = d1\<lparr>clock := k\<rparr>"
      by auto
    with d1 have "d' = d\<lparr>clock := k\<rparr>" by simp
    then show ?thesis by blast
  qed
qed

lemma wait_available_total:
  "rx d \<noteq> [] \<Longrightarrow> \<exists>d'. wait_available d = Inr d'"
proof (induction d rule: wait_available.induct)
  case (1 d)
  obtain b d1 where sa: "stream_available d = (b, d1)" by (cases "stream_available d")
  then have d1: "d1 = d\<lparr>clock := clock d + 1\<rparr>"
    by (auto simp: stream_available_def split: list.splits)
  show ?case
  proof (cases b)
    case True
    with sa show ?thesis
      by (simp add: wait_available.simps [of d])
  next
    case False
    from "1.prems" d1 have "rx d1 \<noteq> []" by simp
    with "1.IH" [OF sa [symmetric] _ "1.prems"] False
    obtain d' where "wait_available d1 = Inr d'" by auto
    with sa False "1.prems" show ?thesis
      by (simp add: wait_available.simps [of d])
  qed
qed

lemma copy_loop_step:
  assumes cont: "i < dataSize d" "unat i < recvBufferSize d"
    and rx: "rx d = (t, c) # rest"
  shows "\<exists>k. copy_loop i d = copy_loop ((if c = CR \<or> c = LF then i - 1 else i) + 1)
           (d\<lparr>rx := rest, clock := k, recvBuffer := (recvBuffer d)[unat i := c]\<rparr>)"
proof -
  from rx wait_available_total [of d] obtain d1 where w: "wait_available d = Inr d1" by auto
  from wait_available_clock [OF w] obtain k where d1: "d1 = d\<lparr>clock := k\<rparr>" by blast
  from wait_available_rx [OF w] rx d1 have t: "t < k" by auto
  from d1 rx have rx1: "rx d1 = (t, c) # rest" by simp
  let ?d2 = "d1\<lparr>clock := clock d1 + 1\<rparr>"
  from rx1 t d1 have sa: "stream_available d1 = (True, ?d2)"
    by (simp add: stream_available_def)
  let ?d3 = "?d2\<lparr>rx := rest\<rparr>"
  from rx1 t d1 have rd: "stream_read ?d2 = (c, ?d3)"
    by (simp add: stream_read_def)
  let ?d4 = "?d3\<lparr>recvBuffer := (recvBuffer ?d3)[unat i := c]\<rparr>"
  from cont w sa rd
  have "copy_loop i d = copy_loop ((if c = CR \<or> c = LF then i - 1 else i) + 1) ?d4"
    by (simp add: copy_loop.simps [of i d] Let_def)
  moreover have "?d4 = d\<lparr>rx := rest, clock := k + 1, recvBuffer := (recvBuffer d)[unat i := c]\<rparr>"
    by (simp add: d1)
  ultimately show ?thesis by metis
qed


lemma copy_loop_stop:
  "\<not> (i < dataSize d \<and> unat i < recvBufferSize d) \<Longrightarrow> copy_loop i d = Inr d"
  by (subst copy_loop.simps, rule if_not_P)

lemma copy_loop_correct:
  assumes "rx d = xs" "n = min (unat (dataSize d)) (recvBufferSize d)" "unat i \<le> n"
    "n - unat i \<le> length (payload_of (map snd xs))"
  shows "\<exists>k. copy_loop i d
           = Inr (d\<lparr>rx := drop (raw_needed (n - unat i) (map snd xs)) xs, clock := k,
                     recvBuffer := take (unat i) (recvBuffer d)
                        @ take (n - unat i) (payload_of (map snd xs)) @ drop n (recvBuffer d)\<rparr>)"
  using assms
proof (induction xs arbitrary: d i)
  case Nil
  from Nil.prems(3,4) have "unat i = n" by (simp add: payload_of_def)
  with Nil have stop: "\<not> (i < dataSize d \<and> unat i < recvBufferSize d)"
    by (auto simp: word_less_nat_alt)
  then have "copy_loop i d = Inr d"
    by (rule copy_loop_stop)
  moreover from \<open>unat i = n\<close> Nil
  have "d = d\<lparr>rx := drop (raw_needed (n - unat i) (map snd [])) [], clock := clock d,
                     recvBuffer := take (unat i) (recvBuffer d)
                        @ take (n - unat i) (payload_of (map snd [])) @ drop n (recvBuffer d)\<rparr>"
    by simp
  ultimately show ?case by metis
next
  case (Cons x rest)
  obtain t c where x: "x = (t, c)" by (cases x)
  show ?case
  proof (cases "unat i < n")
    case False
    with Cons.prems(3) have e: "unat i = n" by simp
    with Cons.prems have stop: "\<not> (i < dataSize d \<and> unat i < recvBufferSize d)"
      by (auto simp: word_less_nat_alt)
    then have "copy_loop i d = Inr d"
      by (rule copy_loop_stop)
    moreover from e Cons.prems
    have "d = d\<lparr>rx := drop (raw_needed (n - unat i) (map snd (x # rest))) (x # rest), clock := clock d,
                     recvBuffer := take (unat i) (recvBuffer d)
                        @ take (n - unat i) (payload_of (map snd (x # rest))) @ drop n (recvBuffer d)\<rparr>"
      by simp
    ultimately show ?thesis by metis
  next
    case True
    with Cons.prems have cont: "i < dataSize d" "unat i < recvBufferSize d"
      by (auto simp: word_less_nat_alt)
    from Cons.prems x have rx: "rx d = (t, c) # rest" by simp
    from copy_loop_step [OF cont rx] obtain k where
      step: "copy_loop i d = copy_loop ((if c = CR \<or> c = LF then i - 1 else i) + 1)
           (d\<lparr>rx := rest, clock := k, recvBuffer := (recvBuffer d)[unat i := c]\<rparr>)"
      by blast
    let ?d4 = "d\<lparr>rx := rest, clock := k, recvBuffer := (recvBuffer d)[unat i := c]\<rparr>"
    have n4: "n = min (unat (dataSize ?d4)) (recvBufferSize ?d4)"
      using Cons.prems by (simp add: recvBufferSize_def)
    from True obtain m where m: "n - unat i = Suc m" by (cases "n - unat i") simp_all
    from cont have len: "unat i < length (recvBuffer d)" by (simp add: recvBufferSize_def)
    show ?thesis
    proof (cases "c = CR \<or> c = LF")
      case crlf: True
      then have p: "payload_of (map snd (x # rest)) = payload_of (map snd rest)"
        by (auto simp: payload_of_def x)
      from crlf have i': "(if c = CR \<or> c = LF then i - 1 else i) + 1 = i" by simp
      from Cons.prems p have "n - unat i \<le> length (payload_of (map snd rest))" by simp
      from Cons.IH [of ?d4 i, OF _ n4 Cons.prems(3) this] obtain k' where
        "copy_loop i ?d4 = Inr (?d4\<lparr>rx := drop (raw_needed (n - unat i) (map snd rest)) rest,
             clock := k',
             recvBuffer := take (unat i) (recvBuffer ?d4)
                @ take (n - unat i) (payload_of (map snd rest)) @ drop n (recvBuffer ?d4)\<rparr>)"
        by auto
      with step i' p m crlf True x
      have "copy_loop i d = Inr (d\<lparr>rx := drop (raw_needed (n - unat i) (map snd (x # rest))) (x # rest),
             clock := k',
             recvBuffer := take (unat i) (recvBuffer d)
                @ take (n - unat i) (payload_of (map snd (x # rest))) @ drop n (recvBuffer d)\<rparr>)"
        by simp
      then show ?thesis by blast
    next
      case pay: False
      then have p: "payload_of (map snd (x # rest)) = c # payload_of (map snd rest)"
        by (auto simp: payload_of_def x)
      from pay have i': "(if c = CR \<or> c = LF then i - 1 else i) + 1 = i + 1" by simp
      from True Cons.prems have "unat i < unat (dataSize d)" by simp
      then have "unat i + 1 < 2 ^ 16"
        using unsigned_less [of "dataSize d", where 'a = nat] by simp
      then have u: "unat (i + 1) = Suc (unat i)"
        by (simp add: unat_add_lem [THEN iffD1])
      with True have le: "unat (i + 1) \<le> n" by simp
      from Cons.prems p u m have "n - unat (i + 1) \<le> length (payload_of (map snd rest))" by simp
      from Cons.IH [of ?d4 "i + 1", OF _ n4 le this] obtain k' where
        "copy_loop (i + 1) ?d4 = Inr (?d4\<lparr>rx := drop (raw_needed (n - unat (i + 1)) (map snd rest)) rest,
             clock := k',
             recvBuffer := take (unat (i + 1)) (recvBuffer ?d4)
                @ take (n - unat (i + 1)) (payload_of (map snd rest)) @ drop n (recvBuffer ?d4)\<rparr>)"
        by auto
      moreover have "n - unat (i + 1) = m" using u m by simp
      moreover have "take (Suc (unat i)) ((recvBuffer d)[unat i := c]) = take (unat i) (recvBuffer d) @ [c]"
        using len by (simp add: take_Suc_conv_app_nth)
      ultimately
      have "copy_loop i d = Inr (d\<lparr>rx := drop (raw_needed (n - unat i) (map snd (x # rest))) (x # rest),
             clock := k',
             recvBuffer := take (unat i) (recvBuffer d)
                @ take (n - unat i) (payload_of (map snd (x # rest))) @ drop n (recvBuffer d)\<rparr>)"
        using step i' p m pay True x u by simp
      then show ?thesis by blast
    qed
  qed
qed


lemma raw_needed_payload:
  "n \<le> length (payload_of s) \<Longrightarrow> payload_of (take (raw_needed n s) s) = take n (payload_of s)"
  by (induction n s rule: raw_needed.induct) (auto simp: payload_of_def)

lemma raw_needed_last:
  "0 < n \<Longrightarrow> n \<le> length (payload_of s) \<Longrightarrow>
   0 < raw_needed n s \<and> s ! (raw_needed n s - 1) \<noteq> CR \<and> s ! (raw_needed n s - 1) \<noteq> LF"
proof (induction n s rule: raw_needed.induct)
  case (3 n c cs)
  show ?case
  proof (cases "c = CR \<or> c = LF")
    case True
    with "3.prems" have "Suc n \<le> length (payload_of cs)" by (auto simp: payload_of_def)
    with "3.IH"(1) True have "0 < raw_needed (Suc n) cs \<and> cs ! (raw_needed (Suc n) cs - 1) \<noteq> CR
        \<and> cs ! (raw_needed (Suc n) cs - 1) \<noteq> LF"
      by simp
    with True show ?thesis by (auto simp: nth_Cons split: nat.splits)
  next
    case False
    show ?thesis
    proof (cases n)
      case 0
      with False show ?thesis by simp
    next
      case (Suc m)
      with "3.prems" False have "n \<le> length (payload_of cs)" by (auto simp: payload_of_def)
      with "3.IH"(2) False Suc have "0 < raw_needed n cs \<and> cs ! (raw_needed n cs - 1) \<noteq> CR
        \<and> cs ! (raw_needed n cs - 1) \<noteq> LF"
        by simp
      with False show ?thesis by (auto simp: nth_Cons split: nat.splits)
    qed
  qed
qed (simp_all add: payload_of_def)

text \<open>
  Claim C5, amended. Let \<open>n\<close> be the smaller of the declared length and the capacity of the
  receive buffer, and let the device deliver at least \<open>n\<close> payload bytes. Then the copy loop
  returns with the first \<open>n\<close> payload bytes at the start of the receive buffer and the rest of
  the buffer as before; CR and LF bytes met on the way are dropped; the bytes taken from the
  transport are the shortest prefix holding \<open>n\<close> payload bytes, so the last byte taken is the
  \<open>n\<close>-th payload byte and nothing after it is read. For \<open>H i CR ! LF\<close> with declared length 3
  the buffer starts with \<open>Hi!\<close> and 4 bytes are taken: the LF stays in the transport.
\<close>

theorem copy_loop_payload:
  assumes "n = min (unat (dataSize d)) (recvBufferSize d)" and "s = map snd (rx d)"
    and "n \<le> length (payload_of s)"
  shows "(\<exists>k. copy_loop 0 d
            = Inr (d\<lparr>rx := drop (raw_needed n s) (rx d), clock := k,
                      recvBuffer := take n (payload_of s) @ drop n (recvBuffer d)\<rparr>))
       \<and> payload_of (take (raw_needed n s) s) = take n (payload_of s)
       \<and> (0 < n \<longrightarrow> 0 < raw_needed n s \<and> s ! (raw_needed n s - 1) \<noteq> CR
                      \<and> s ! (raw_needed n s - 1) \<noteq> LF)"
proof (intro conjI impI)
  from copy_loop_correct [of d "rx d" n 0] assms
  show "\<exists>k. copy_loop 0 d
            = Inr (d\<lparr>rx := drop (raw_needed n s) (rx d), clock := k,
                      recvBuffer := take n (payload_of s) @ drop n (recvBuffer d)\<rparr>)"
    by simp
next
  from assms show "payload_of (take (raw_needed n s) s) = take n (payload_of s)"
    by (intro raw_needed_payload)
next
  assume "0 < n"
  with assms raw_needed_last [of n s]
  show "0 < raw_needed n s" "s ! (raw_needed n s - 1) \<noteq> CR" "s ! (raw_needed n s - 1) \<noteq> LF"
    by simp_all
qed

lemma hi_facts:
  "(3::nat) = min (unat (dataSize hi)) (recvBufferSize hi)"
  "3 \<le> length (payload_of (map snd (rx hi)))"
  "raw_needed 3 (map snd (rx hi)) = 4"
  "drop 4 (rx hi) = arrive 0 [LF]"
  "take 3 (payload_of (map snd (rx hi))) = ''Hi!''"
  "drop 3 (recvBuffer hi) = replicate 5 NUL"
  by code_simp+

theorem copy_loop_payload_witness:
  "(3::nat) = min (unat (dataSize hi)) (recvBufferSize hi)
   \<and> 3 \<le> length (payload_of (map snd (rx hi)))
   \<and> (\<exists>k. copy_loop 0 hi
            = Inr (hi\<lparr>rx := arrive 0 [LF], clock := k, recvBuffer := ''Hi!'' @ replicate 5 NUL\<rparr>))
   \<and> raw_needed 3 (map snd (rx hi)) = 4"
proof -
  from copy_loop_payload [OF hi_facts(1) refl hi_facts(2)]
  have "\<exists>k. copy_loop 0 hi
            = Inr (hi\<lparr>rx := drop (raw_needed 3 (map snd (rx hi))) (rx hi), clock := k,
                      recvBuffer := take 3 (payload_of (map snd (rx hi))) @ drop 3 (recvBuffer hi)\<rparr>)"
    by blast
  then have "\<exists>k. copy_loop 0 hi
            = Inr (hi\<lparr>rx := arrive 0 [LF], clock := k, recvBuffer := ''Hi!'' @ replicate 5 NUL\<rparr>)"
    by (simp only: hi_facts(3-6))
  with hi_facts(1-3) show ?thesis by blast
qed

text \<open>
  The claim as stated has the copy step take 5 bytes from the transport on this stream.
\<close>

theorem copy_loop_leaves_trailing_LF:
  "copy_loop 0 hi = Inr hi_copied
   \<and> map snd (rx hi) = ''Hi'' @ [CR] @ ''!'' @ [LF]
   \<and> take 3 (recvBuffer hi_copied) = ''Hi!''
   \<and> rx hi_copied = arrive 0 [LF]
   \<and> length (rx hi) - length (rx hi_copied) = 4
   \<and> length (rx hi) - length (rx hi_copied) \<noteq> 5"
  by code_simp


subsection \<open>Receive buffer and received length\<close>

lemma sent_kept: "sent s d d' \<Longrightarrow> kept d d'"
  by (simp add: sent_def kept_def)

lemma sendCommand_kept: "sendCommand command d = Inr d' \<Longrightarrow> kept d d'"
  by (blast intro: sent_kept sendCommand_sent)

lemma sendCommand_P_kept: "sendCommand_P command d = Inr d' \<Longrightarrow> kept d d'"
  by (blast intro: sent_kept sendCommand_P_sent)

lemma sendCommand_P_param_kept: "sendCommand_P_param command parameter d = Inr d' \<Longrightarrow> kept d d'"
  by (blast intro: sent_kept sendCommand_P_param_sent)

lemma readResponse_kept: "readResponse timeout crlfToWait d = Inr (ok, d') \<Longrightarrow> kept d d'"
  by (blast intro: sent_kept readResponse_sent)

lemma readToForget_kept: "readToForget timeout d = Inr d' \<Longrightarrow> kept d d'"
  by (blast intro: sent_kept readToForget_sent)

lemma readResponseCheckAnswer_P_kept:
  "readResponseCheckAnswer_P timeout expectedAnswer crlfToWait d = Inr (ok, d') \<Longrightarrow> kept d d'"
  by (blast intro: sent_kept readResponseCheckAnswer_P_sent)

lemma initiateHTTP_kept: "initiateHTTP h url d = Inr (rc, d') \<Longrightarrow> kept d d'"
  unfolding initiateHTTP_def
  by (auto simp: bindF_Inr kept_def split: if_splits
           dest!: sendCommand_P_kept sendCommand_P_param_kept readResponseCheckAnswer_P_kept)

lemma terminateHTTP_kept: "terminateHTTP h d = Inr (rc, d') \<Longrightarrow> kept d d'"
  unfolding terminateHTTP_def
  by (auto simp: bindF_Inr kept_def split: if_splits
           dest!: sendCommand_P_kept readResponseCheckAnswer_P_kept)

lemma readData_early: "readData h idxBase d = Inr (Some rc, d') \<Longrightarrow> rc = 705"
  unfolding readData_def
  by (auto simp: bindF_Inr Let_def split: if_splits)

lemma actionResult_kept:
  assumes "actionResult h tag d = Inr (rc, d')" and "rc \<noteq> 200" "rc \<noteq> 705" "rc \<noteq> 706"
  shows "kept d d'"
proof -
  from assms(1) obtain idxBase where
    rest: "(if idxBase < 0 then Inr (703, d) else
     bindF (httpRC_of (internalBuffer d) idxBase) (\<lambda>httpRC.
     bindF (if httpRC = 200 then readData h idxBase d else Inr (None, d)) (\<lambda>(early, d1).
     case early of
       Some rc \<Rightarrow> Inr (rc, d1)
     | None \<Rightarrow>
         bindF (terminateHTTP h d1) (\<lambda>(termRC, d2).
         if termRC > 0 then Inr (termRC, d2) else Inr (httpRC, d2))))) = Inr (rc, d')"
    unfolding actionResult_def bindF_Inr by blast
  show ?thesis
  proof (cases "idxBase < 0")
    case True
    with rest show ?thesis by (simp add: kept_def)
  next
    case False
    with rest obtain httpRC early d1 where
      e: "(if httpRC = 200 then readData h idxBase d else Inr (None, d)) = Inr (early, d1)"
      and t: "(case early of
       Some rc \<Rightarrow> Inr (rc, d1)
     | None \<Rightarrow>
         bindF (terminateHTTP h d1) (\<lambda>(termRC, d2).
         if termRC > 0 then Inr (termRC, d2) else Inr (httpRC, d2))) = Inr (rc, d')"
      by (auto simp: bindF_Inr)
    show ?thesis
    proof (cases early)
      case (Some rc')
      with t have "rc' = rc" by simp
      with e Some assms(3) show ?thesis
        by (auto split: if_splits dest: readData_early)
    next
      case None
      with t have "\<exists>termRC. terminateHTTP h d1 = Inr (termRC, d')
          \<and> rc = (if termRC > 0 then termRC else httpRC)"
        by (auto simp: bindF_Inr split: if_splits)
      then obtain termRC where tm: "terminateHTTP h d1 = Inr (termRC, d')"
        and rc: "rc = (if termRC > 0 then termRC else httpRC)"
        by blast
      from tm have "termRC = 706 \<or> termRC = 0"
        unfolding terminateHTTP_def by (auto simp: bindF_Inr split: if_splits)
      with rc assms have "httpRC \<noteq> 200" by auto
      with e have "d1 = d" by simp
      with terminateHTTP_kept [OF tm] show ?thesis by simp
    qed
  qed
qed

lemma kept_cleanup:
  "kept (cleanupRecv d) d' \<Longrightarrow>
   recvBuffer d' = replicate (recvBufferSize d) NUL \<and> dataSize d' = 0"
  by (simp add: kept_def cleanupRecv_def)

text \<open>
  Claim C6. The length reported by \<^verbatim>\<open>getDataSizeReceived\<close> is to be 0 after every
  \<^verbatim>\<open>doGet\<close> or \<^verbatim>\<open>doPost\<close> that fails. \<open>dataSize\<close> is set to 0 on entry and to the declared
  length once the status is 200; the returns with 705 and 706 that follow leave it set.
  Here the module reports 200 with 5 bytes and refuses \<^verbatim>\<open>AT+HTTPREAD\<close>: \<^verbatim>\<open>doGet\<close> returns
  705, the receive buffer is all zero, and the length reported is 5.
\<close>

theorem failed_doGet_reports_length:
  "observed (doGet hdr2 ''http://example.com/'' 10000 refused) = Inr (705, 5, replicate 8 NUL)
   \<and> observed (doGet hdr1 ''http://example.com/'' 10000 refused1) = Inr (705, 5, replicate 8 NUL)"
  by code_simp

text \<open>
  Claim C7, amended. Both operations begin by filling the receive buffer with zeros, so
  the payload of an earlier fetch does not outlive the next call. When \<^verbatim>\<open>doGet\<close> or
  \<^verbatim>\<open>doPost\<close> returns anything but 200, 705 or 706 (a failed step before the data is read, or
  an HTTP status other than 200), the receive buffer is all zero on return.
\<close>

theorem failed_fetch_clears_recvBuffer:
  "(doGet h url serverReadTimeoutMs d = Inr (rc, d') \<and> rc \<noteq> 200 \<and> rc \<noteq> 705 \<and> rc \<noteq> 706
      \<longrightarrow> recvBuffer d' = replicate (recvBufferSize d) NUL)
   \<and> (doPost h url contentType payload clientWriteTimeoutMs serverReadTimeoutMs d = Inr (rc, d')
        \<and> rc \<noteq> 200 \<and> rc \<noteq> 705 \<and> rc \<noteq> 706
      \<longrightarrow> recvBuffer d' = replicate (recvBufferSize d) NUL)"
proof (intro conjI impI)
  assume a: "doGet h url serverReadTimeoutMs d = Inr (rc, d') \<and> rc \<noteq> 200 \<and> rc \<noteq> 705 \<and> rc \<noteq> 706"
  then have "kept (cleanupRecv d) d'"
    unfolding doGet_def Let_def
    by (auto simp: bindF_Inr kept_def split: if_splits
           dest!: sendCommand_P_kept readResponseCheckAnswer_P_kept readResponse_kept
                  initiateHTTP_kept actionResult_kept)
  then show "recvBuffer d' = replicate (recvBufferSize d) NUL"
    by (simp add: kept_cleanup)
next
  assume a: "doPost h url contentType payload clientWriteTimeoutMs serverReadTimeoutMs d = Inr (rc, d')
        \<and> rc \<noteq> 200 \<and> rc \<noteq> 705 \<and> rc \<noteq> 706"
  then have "kept (cleanupRecv d) d'"
    unfolding doPost_def Let_def
    by (auto simp: bindF_Inr kept_def stream_write_def split: if_splits
           dest!: sendCommand_P_kept sendCommand_P_param_kept sendCommand_kept
                  readResponseCheckAnswer_P_kept readResponse_kept readToForget_kept
                  initiateHTTP_kept actionResult_kept)
  then show "recvBuffer d' = replicate (recvBufferSize d) NUL"
    by (simp add: kept_cleanup)
qed


lemma stale_runs:
  "observed (doGet hdr2 ''http://example.com/'' 10000 stale) = Inr (701, 0, replicate 8 NUL)"
  "observed (doPost hdr2 ''http://example.com/'' ''text/plain'' ''abc'' 10000 10000 stale)
     = Inr (701, 0, replicate 8 NUL)"
  "observed (doGet hdr1 ''http://example.com/'' 10000 stale) = Inr (701, 0, replicate 8 NUL)"
  "recvBufferSize stale = 8"
  "getDataReceived stale = ''HELLO'' @ replicate 3 NUL"
  "replicate 8 NUL \<noteq> ''HELLO'' @ replicate 3 NUL"
  by code_simp+

lemma observed_Inr:
  "observed r = Inr (rc, n, b) \<Longrightarrow> \<exists>d. r = Inr (rc, d) \<and> recvBuffer d = b"
  by (auto simp: observed_def getDataReceived_def split: sum.splits)

theorem failed_fetch_clears_recvBuffer_witness:
  "(\<exists>d'. doGet hdr2 ''http://example.com/'' 10000 stale = Inr (701, d')
         \<and> recvBuffer d' = replicate 8 NUL)
   \<and> (\<exists>d'. doPost hdr2 ''http://example.com/'' ''text/plain'' ''abc'' 10000 10000 stale = Inr (701, d')
         \<and> recvBuffer d' = replicate 8 NUL)"
proof -
  have c: "(701 :: 16 word) \<noteq> 200 \<and> (701 :: 16 word) \<noteq> 705 \<and> (701 :: 16 word) \<noteq> 706"
    by simp
  from observed_Inr [OF stale_runs(1)] obtain d1
    where g: "doGet hdr2 ''http://example.com/'' 10000 stale = Inr (701, d1)" by blast
  from observed_Inr [OF stale_runs(2)] obtain d2
    where p: "doPost hdr2 ''http://example.com/'' ''text/plain'' ''abc'' 10000 10000 stale = Inr (701, d2)"
    by blast
  from failed_fetch_clears_recvBuffer [where h = hdr2 and url = "''http://example.com/''"
          and serverReadTimeoutMs = 10000 and d = stale and rc = 701 and d' = d1] g c
  have "recvBuffer d1 = replicate 8 NUL"
    by (simp only: stale_runs(4)) blast
  moreover
  from failed_fetch_clears_recvBuffer [where h = hdr2 and url = "''http://example.com/''"
          and contentType = "''text/plain''" and payload = "''abc''"
          and clientWriteTimeoutMs = 10000
          and serverReadTimeoutMs = 10000 and d = stale and rc = 701 and d' = d2] p c
  have "recvBuffer d2 = replicate 8 NUL"
    by (simp only: stale_runs(4)) blast
  ultimately show ?thesis using g p by blast
qed

text \<open>
  The claim as stated has a failed call leave the earlier payload in place: here the
  buffer holds \<open>HELLO\<close>, the module refuses \<^verbatim>\<open>AT+HTTPINIT\<close>, \<^verbatim>\<open>doGet\<close> returns 701 and the
  buffer is all zero.
\<close>

theorem failed_doGet_wipes_previous_payload:
  "observed (doGet hdr2 ''http://example.com/'' 10000 stale) = Inr (701, 0, replicate 8 NUL)
   \<and> observed (doGet hdr1 ''http://example.com/'' 10000 stale) = Inr (701, 0, replicate 8 NUL)
   \<and> getDataReceived stale = ''HELLO'' @ replicate 3 NUL
   \<and> replicate 8 NUL \<noteq> ''HELLO'' @ replicate 3 NUL"
  using stale_runs by blast


end
